theory Spec2Isabelle
  imports Main
begin

section \<open>Exceptions and \<open>Try\<close>\<close>

text \<open>
  The exceptions that the sources name, next to the user's own (\<open>'e\<close>):
  \<open>UsingUninitializedTry\<close> (AsyncClosure.h, line 180),
  \<open>BUG_co_cleanup_must_not_copy_error\<close> (line 274), \<open>OperationCancelled\<close>
  (Result.h, line 85) and \<open>std::bad_alloc\<close> (AsyncClosure.h, lines 108 and 295).
\<close>

datatype 'e exn =
    UserError 'e
  | UsingUninitializedTry
  | BUG_co_cleanup_must_not_copy_error
  | OperationCancelled
  | bad_alloc

text \<open>
  \<open>folly::exception_wrapper\<close> either holds an exception or is empty; its
  \<open>explicit operator bool\<close> says which. \<open>None\<close> is the empty wrapper
  \<open>exception_wrapper{}\<close>. (The class is declared in folly/ExceptionWrapper.h and
  \<open>Try\<close> in folly/Try.h, which are not among the sources; the sources construct,
  test, move and \<open>reset\<close> the wrapper.)
\<close>

type_synonym 'e exception_wrapper = "'e exn option"

definition has_exception :: "'e exception_wrapper \<Rightarrow> bool" where
  "has_exception ew = (case ew of None \<Rightarrow> False | Some _ \<Rightarrow> True)"

text \<open>
  \<open>folly::Try<T>\<close> has three states: a value, an exception (an
  \<open>exception_wrapper\<close>, which the type lets be empty), or nothing, the state of a
  default-constructed \<open>Try\<close> (AsyncClosure.h, line 154).
\<close>

datatype ('a, 'e) Try =
    TryValue 'a
  | TryException "'e exception_wrapper"
  | TryNothing

fun hasException :: "('a, 'e) Try \<Rightarrow> bool" where
  "hasException (TryException _) = True"
| "hasException _ = False"

section \<open>\<open>co_error\<close> and \<open>co_result\<close> (folly/coro/Result.h)\<close>

text \<open>
  A failed \<open>assert\<close> aborts the program. \<open>assert\<close> is the macro of
  \<open><cassert>\<close> (Result.h, line 19): it is evaluated when \<open>NDEBUG\<close> is not
  defined and expands to nothing when it is. The flag \<open>NDEBUG\<close> below is that
  macro being defined.
\<close>

datatype fault = AssertionFailure

record 'e co_error_obj =
  ex :: "'e exception_wrapper"

text \<open>
  The constructor of \<open>co_error\<close> (lines 32-41) takes any non-empty argument pack
  from which an \<open>exception_wrapper\<close> can be built, builds the member \<open>ex\<close> from it
  and asserts it. The pack is represented by the wrapper it builds: an exception
  object gives \<open>Some x\<close>, an empty \<open>exception_wrapper\<close> or a null
  \<open>exception_ptr\<close> gives \<open>None\<close>.
\<close>

definition co_error :: "bool \<Rightarrow> 'e exception_wrapper \<Rightarrow> fault + 'e co_error_obj" where
  "co_error NDEBUG a =
     (let this = \<lparr>ex = a\<rparr>
      in if \<not> NDEBUG \<and> \<not> has_exception (ex this) then Inl AssertionFailure
         else Inr this)"

definition exception :: "'e co_error_obj \<Rightarrow> 'e exception_wrapper" where
  "exception this = ex this"

record ('a, 'e) co_result_obj =
  res :: "('a, 'e) Try"

text \<open>
  The constructor of \<open>co_result\<close> (lines 54-58) moves the \<open>Try\<close> in and asserts
  \<open>!result_.hasException() || result_.exception()\<close>. \<open>Try::exception()\<close> is
  read only behind \<open>hasException()\<close>, as \<open>||\<close> short-circuits.
\<close>

fun try_exception :: "('a, 'e) Try \<Rightarrow> 'e exception_wrapper" where
  "try_exception (TryException ew) = ew"
| "try_exception _ = None"

definition co_result :: "bool \<Rightarrow> ('a, 'e) Try \<Rightarrow> fault + ('a, 'e) co_result_obj" where
  "co_result NDEBUG r =
     (let this = \<lparr>res = r\<rparr>
      in if \<not> NDEBUG \<and> \<not> (\<not> hasException (res this)
                            \<or> has_exception (try_exception (res this)))
         then Inl AssertionFailure
         else Inr this)"

definition result :: "('a, 'e) co_result_obj \<Rightarrow> ('a, 'e) Try" where
  "result this = res this"

text \<open>\<open>co_cancelled_t::operator co_error()\<close> (lines 82-87).\<close>

definition co_cancelled :: "bool \<Rightarrow> fault + 'e co_error_obj" where
  "co_cancelled NDEBUG = co_error NDEBUG (Some OperationCancelled)"

section \<open>\<open>cumsum_except_last\<close> (AsyncClosure.h, lines 185-192)\<close>

text \<open>
  The primary template, chosen for an empty pack of values, is \<open>vtag<>\<close>; the
  partial specialisation for \<open>Head, Tail...\<close> puts \<open>Sum\<close> in front of
  \<open>cumsum_except_last<Sum + Head, Tail...>\<close>. The values are of any type with
  \<open>+\<close>; at its one use (line 424) the seed is \<open>(size_t)0\<close> and the values are
  \<open>bool\<close>s, promoted by \<open>+\<close>. \<open>Sum'\<close> is the template parameter
  \<open>Sum\<close>.
\<close>

fun cumsum_except_last :: "'a::monoid_add \<Rightarrow> 'a list \<Rightarrow> 'a list" where
  "cumsum_except_last Sum' [] = []"
| "cumsum_except_last Sum' (Head # Tail) = Sum' # cumsum_except_last (Sum' + Head) Tail"

section \<open>Safety levels\<close>

text \<open>
  Modelled from the spec: the enumeration \<open>safe_alias\<close>. Its declaration
  (folly/coro/safe/SafeAlias.h) is not among the sources, which only name its members.
  The spec lists the levels from least to most safe: unsafe, unsafe-internal,
  cleanup-safe-reference, after-cleanup-reference, maybe-value, value. The members that
  the sources name keep their names there; \<open>value_level\<close> is the spec's "value".
\<close>

datatype safe_alias =
    unsafe
  | unsafe_closure_internal
  | co_cleanup_safe_ref
  | after_cleanup_ref
  | maybe_value
  | value_level

text \<open>
  Modelled from the spec: the position of a level in the spec's order. The comparisons
  \<open>>=\<close> of the sources on \<open>safe_alias\<close> (an \<open>enum class\<close>) compare
  these underlying values.
\<close>

fun to_underlying :: "safe_alias \<Rightarrow> nat" where
  "to_underlying unsafe = 0"
| "to_underlying unsafe_closure_internal = 1"
| "to_underlying co_cleanup_safe_ref = 2"
| "to_underlying after_cleanup_ref = 3"
| "to_underlying maybe_value = 4"
| "to_underlying value_level = 5"

text \<open>
  Modelled from the spec: the order of the levels, "from least to most safe", as the
  order of their underlying values.
\<close>

instantiation safe_alias :: linorder
begin

definition less_eq_safe_alias :: "safe_alias \<Rightarrow> safe_alias \<Rightarrow> bool" where
  "less_eq_safe_alias a b = (to_underlying a \<le> to_underlying b)"

definition less_safe_alias :: "safe_alias \<Rightarrow> safe_alias \<Rightarrow> bool" where
  "less_safe_alias a b = (to_underlying a < to_underlying b)"

instance
proof
  fix x y z :: safe_alias
  show "(x < y) = (x \<le> y \<and> \<not> y \<le> x)"
    by (auto simp: less_eq_safe_alias_def less_safe_alias_def)
  show "x \<le> x"
    by (simp add: less_eq_safe_alias_def)
  show "x \<le> y \<Longrightarrow> y \<le> z \<Longrightarrow> x \<le> z"
    by (simp add: less_eq_safe_alias_def)
  show "x \<le> y \<Longrightarrow> y \<le> x \<Longrightarrow> x = y"
    by (cases x; cases y; simp add: less_eq_safe_alias_def)
  show "x \<le> y \<or> y \<le> x"
    by (auto simp: less_eq_safe_alias_def)
qed

end

text \<open>
  Modelled from the spec: \<open>folly::least_safe_alias\<close> (SafeAlias.h, not among the
  sources; called at AsyncClosure.h, line 435). The spec: "Join(a, b) = min(a, b) under
  this order", and joining zero levels yields the safest level, the identity of the
  operation. The join of a sequence is the binary join folded from that identity.
\<close>

definition least_safe_alias :: "safe_alias list \<Rightarrow> safe_alias" where
  "least_safe_alias levels = foldr min levels value_level"

section \<open>Arguments, storage and the trace of a closure\<close>

text \<open>
  What \<open>async_closure_set_cancel_token\<close> (lines 33-46) finds on an argument: the
  \<open>privateHackSetParentCancelToken\<close> of \<open>AsyncObject\<close>, a
  \<open>setParentCancelToken\<close> returning \<open>void\<close>, or neither. The user code "can
  throw" (line 141); the hook carries what the call throws, \<open>None\<close> when it returns.
\<close>

datatype 'e cancel_hook =
    privateHackSetParentCancelToken "'e exn option"
  | setParentCancelToken "'e exn option"
  | no_cancel_hook

text \<open>
  What \<open>async_closure_make_cleanup_tuple\<close> (lines 48-70) finds:
  \<open>privateHack_co_cleanup\<close>, which returns a tuple of tasks (here: how many), a
  \<open>co_cleanup(priv, err)\<close>, a \<open>co_cleanup(priv)\<close>, or none.
\<close>

datatype cleanup_hook =
    privateHack_co_cleanup nat
  | co_cleanup_with_error
  | co_cleanup_error_oblivious
  | no_co_cleanup

text \<open>
  A stored argument (a slot of the storage tuple): \<open>arg_id\<close> identifies the
  object in the trace.
\<close>

record 'e stored_arg =
  arg_id :: nat
  cancel_hook :: "'e cancel_hook"
  cleanup_hook :: cleanup_hook

text \<open>
  \<open>async_closure_storage\<close> (lines 281-302): the preallocated exception
  \<open>inner_err_\<close>, and the tuple of stored arguments, constructed in place left to
  right.
\<close>

record 'e async_closure_storage =
  inner_err :: "'e exception_wrapper"
  storage_tuple :: "'e stored_arg list"

text \<open>
  The observable steps of building and awaiting a closure, in the order in which they
  happen. \<open>AwaitCleanup owner k seen\<close> is the await of the \<open>k\<close>-th cleanup task of
  the argument \<open>owner\<close>; \<open>seen\<close> is what the task reads through its
  \<open>const exception_wrapper*\<close>, and \<open>None\<close> for a task that was given no
  pointer. \<open>Finish\<close> is the \<open>co_return\<close> or \<open>co_yield co_error(...)\<close> that
  ends the outer coroutine.
\<close>

datatype 'e event =
    Construct nat
  | MakeInnerCoro
  | MakeCleanupTask nat nat
  | MakeOuterCoro
  | SetCancelToken nat
  | AwaitInner
  | AwaitCleanup nat nat "'e exception_wrapper option"
  | Finish
  | Destroy nat

text \<open>\<open>async_closure_default_inner_err\<close> (lines 268-279).\<close>

definition async_closure_default_inner_err :: "bool \<Rightarrow> 'e exception_wrapper" where
  "async_closure_default_inner_err Debug =
     (if Debug then Some BUG_co_cleanup_must_not_copy_error else None)"

text \<open>
  \<open>async_closure_set_cancel_token\<close> (lines 33-46): the steps it takes and what it
  throws.
\<close>

definition async_closure_set_cancel_token :: "'e stored_arg \<Rightarrow> 'e event list \<times> 'e exn option" where
  "async_closure_set_cancel_token arg =
     (case cancel_hook arg of
        privateHackSetParentCancelToken thrown \<Rightarrow> ([SetCancelToken (arg_id arg)], thrown)
      | setParentCancelToken thrown \<Rightarrow> ([SetCancelToken (arg_id arg)], thrown)
      | no_cancel_hook \<Rightarrow> ([], None))"

text \<open>
  Lines 144-150: \<open>try_and_catch\<close> around the fold
  \<open>(async_closure_set_cancel_token(priv, args, ctok), ...)\<close> over the storage tuple.
  The comma fold runs left to right; the first throw ends it and is the wrapper
  returned, and with no throw the wrapper returned is empty.
\<close>

fun try_and_catch_set_cancel_tokens ::
  "'e stored_arg list \<Rightarrow> 'e event list \<times> 'e exception_wrapper" where
  "try_and_catch_set_cancel_tokens [] = ([], None)"
| "try_and_catch_set_cancel_tokens (arg # args) =
     (case async_closure_set_cancel_token arg of
        (evs, Some thrown) \<Rightarrow> (evs, Some thrown)
      | (evs, None) \<Rightarrow>
          (case try_and_catch_set_cancel_tokens args of
             (evs', err) \<Rightarrow> (evs @ evs', err)))"

text \<open>
  A cleanup task: the argument it belongs to, its position in that argument's tuple, and
  whether it was given the pointer to \<open>inner_err_\<close>. The \<open>static_assert\<close> of
  lines 52-55 makes every task a \<open>noexcept\<close>-awaitable \<open>void\<close> coro, so
  awaiting one yields nothing and throws nothing.
\<close>

record cleanup_task =
  owner :: nat
  part :: nat
  takes_err :: bool

definition async_closure_make_cleanup_tuple :: "'e stored_arg \<Rightarrow> cleanup_task list" where
  "async_closure_make_cleanup_tuple arg =
     (case cleanup_hook arg of
        privateHack_co_cleanup n \<Rightarrow>
          map (\<lambda>k. \<lparr>owner = arg_id arg, part = k, takes_err = True\<rparr>) [0..<n]
      | co_cleanup_with_error \<Rightarrow> [\<lparr>owner = arg_id arg, part = 0, takes_err = True\<rparr>]
      | co_cleanup_error_oblivious \<Rightarrow> [\<lparr>owner = arg_id arg, part = 0, takes_err = False\<rparr>]
      | no_co_cleanup \<Rightarrow> [])"

text \<open>
  Lines 111-116: \<open>reverse_apply\<close> hands the storage tuple's elements to the lambda
  in reverse, and \<open>tuple_cat\<close> merges their cleanup tuples in that order. Both are
  declared in folly/detail/tuple.h, which is not among the sources; what they do is taken
  from their names, from the contract that lines 103-105 state ("awaited sequentially
  right-to-left, in the reverse of the construction order") and from the test
  \<open>ctorCleanupDtorOrdering\<close>.
\<close>

definition reversed_noexcept_cleanups :: "'e async_closure_storage \<Rightarrow> cleanup_task list" where
  "reversed_noexcept_cleanups storage_ptr =
     concat (map async_closure_make_cleanup_tuple (rev (storage_tuple storage_ptr)))"

text \<open>
  Awaiting one cleanup task (line 169). The task holds the pointer it was given when it
  was made, so what it sees is \<open>inner_err_\<close> as it is when the task runs.
\<close>

definition await_cleanup :: "'e async_closure_storage \<Rightarrow> cleanup_task \<Rightarrow> 'e event" where
  "await_cleanup storage_ptr t =
     AwaitCleanup (owner t) (part t)
       (if takes_err t then Some (inner_err storage_ptr) else None)"

text \<open>\<open>async_closure_outer_coro_result\<close> (lines 78-86).\<close>

definition async_closure_outer_coro_result :: "('r \<Rightarrow> 'r) option \<Rightarrow> 'r \<Rightarrow> 'r" where
  "async_closure_outer_coro_result result_after_cleanup r =
     (case result_after_cleanup of Some f \<Rightarrow> f r | None \<Rightarrow> r)"

section \<open>The outer coroutine (AsyncClosure.h, lines 119-183)\<close>

text \<open>
  How a coroutine ends: with a \<open>Try\<close> for its awaiter (\<open>co_return\<close> gives a
  value, \<open>co_yield co_error(...)\<close> an exception), or with the program aborted by a
  failed \<open>assert\<close>.
\<close>

type_synonym ('r, 'e) completion = "fault + ('r, 'e) Try"

definition co_yield_co_error :: "bool \<Rightarrow> 'e exception_wrapper \<Rightarrow> ('r, 'e) completion" where
  "co_yield_co_error NDEBUG a =
     (case co_error NDEBUG a of
        Inl f \<Rightarrow> Inl f
      | Inr e \<Rightarrow> Inr (TryException (exception e)))"

text \<open>
  The body of \<open>async_closure_outer_coro\<close>. \<open>inner\<close> is what
  \<open>co_awaitTry(std::move(inner_mover)())\<close> gives if it is awaited;
  \<open>result_after_cleanup\<close> is the method of that name of the result type, when
  \<open>has_result_after_cleanup\<close> holds (for a \<open>void\<close> result it does not).
  \<open>kIsDebug\<close> is folly's constant, \<open>NDEBUG\<close> decides the \<open>assert\<close> of
  \<open>co_error\<close>. A moved-from \<open>exception_wrapper\<close> is empty. The function returns
  how the coroutine ends, the storage as the body leaves it, and the steps taken.
\<close>

definition async_closure_outer_coro ::
  "bool \<Rightarrow> bool \<Rightarrow> bool \<Rightarrow> ('r \<Rightarrow> 'r) option \<Rightarrow> ('r, 'e) Try \<Rightarrow>
   'e async_closure_storage \<Rightarrow> cleanup_task list \<Rightarrow>
   ('r, 'e) completion \<times> 'e async_closure_storage \<times> 'e event list" where
  "async_closure_outer_coro NDEBUG kIsDebug SetCancelTok result_after_cleanup inner
       storage_ptr cleanups =
     (let s0 = (if kIsDebug then storage_ptr\<lparr>inner_err := None\<rparr> else storage_ptr);
          tok = (if SetCancelTok
                 then (case try_and_catch_set_cancel_tokens (storage_tuple s0) of
                         (evs, err) \<Rightarrow> (evs, s0\<lparr>inner_err := err\<rparr>))
                 else ([], s0));
          s1 = snd tok;
          awaited = (if \<not> has_exception (inner_err s1)
                     then (case inner of
                             TryException ew \<Rightarrow>
                               ([AwaitInner], TryException None, s1\<lparr>inner_err := ew\<rparr>)
                           | _ \<Rightarrow> ([AwaitInner], inner, s1))
                     else ([], TryNothing, s1));
          res = fst (snd awaited);
          s2 = snd (snd awaited);
          evs_cleanup = map (await_cleanup s2) cleanups;
          done = (case res of
                    TryValue v \<Rightarrow>
                      (Inr (TryValue (async_closure_outer_coro_result result_after_cleanup v)), s2)
                  | TryException _ \<Rightarrow>
                      (co_yield_co_error NDEBUG (inner_err s2), s2\<lparr>inner_err := None\<rparr>)
                  | TryNothing \<Rightarrow>
                      (co_yield_co_error NDEBUG (Some UsingUninitializedTry), s2))
      in (fst done, snd done,
          fst tok @ fst awaited @ evs_cleanup @ (case fst done of Inl _ \<Rightarrow> [] | Inr _ \<Rightarrow> [Finish])))"

text \<open>
  Line 182: the parameter \<open>storage_ptr\<close> keeps the stored arguments alive, so they
  are destroyed with the coroutine frame, after the body has ended; "those also run
  right-to-left" (lines 103-105).
\<close>

definition destroy_storage :: "'e async_closure_storage \<Rightarrow> 'e event list" where
  "destroy_storage storage_ptr = map (\<lambda>arg. Destroy (arg_id arg)) (rev (storage_tuple storage_ptr))"

section \<open>Tasks\<close>

text \<open>
  The type of a task: \<open>SafeTask<s, T>\<close>, the immovable \<open>NowTask<T>\<close>
  (NowTask.h), or another type, such as \<open>Task<T>\<close>.
\<close>

datatype task_type = SafeTask safe_alias | NowTask | OtherTask

text \<open>
  A task that has not been awaited: the inner coroutine alone, or the outer coroutine
  with the inner one, the storage and the cleanup tasks in its frame.
\<close>

datatype ('r, 'e) coro =
    inner_coro "('r, 'e) Try"
  | outer_coro bool "('r \<Rightarrow> 'r) option" "('r, 'e) Try" "'e async_closure_storage"
      "cleanup_task list"

record ('r, 'e) task =
  task_type :: task_type
  coro :: "('r, 'e) coro"

text \<open>
  \<open>toNowTask\<close> (NowTask.h, lines 105-121, and \<open>SafeTask.h\<close> for the overload on
  \<open>SafeTask\<close>): the same coroutine as a \<open>NowTask\<close>.
\<close>

definition toNowTask :: "('r, 'e) task \<Rightarrow> ('r, 'e) task" where
  "toNowTask t = t\<lparr>task_type := NowTask\<rparr>"

text \<open>
  Awaiting a task to a \<open>Try\<close>, and destroying its frame afterwards. An aborted
  program runs no destructor.
\<close>

definition co_awaitTry ::
  "bool \<Rightarrow> bool \<Rightarrow> ('r, 'e) task \<Rightarrow> ('r, 'e) completion \<times> 'e event list" where
  "co_awaitTry NDEBUG kIsDebug t =
     (case coro t of
        inner_coro inner \<Rightarrow> (Inr inner, [AwaitInner])
      | outer_coro SetCancelTok result_after_cleanup inner storage_ptr cleanups \<Rightarrow>
          (case async_closure_outer_coro NDEBUG kIsDebug SetCancelTok result_after_cleanup
                  inner storage_ptr cleanups of
             (Inl f, s, evs) \<Rightarrow> (Inl f, evs)
           | (Inr r, s, evs) \<Rightarrow> (Inr r, evs @ destroy_storage s)))"

section \<open>The safety gate: \<open>async_closure_wrap_coro\<close> (lines 211-258)\<close>

text \<open>
  A \<open>static_assert\<close> that fails makes the program ill-formed: nothing is built and
  nothing runs. The failures are named after their messages.
\<close>

datatype static_assert_failure =
    Args_must_have_safe_alias_of_at_least_shared_cleanup
  | Only_SafeTask_is_supported_as_the_inner_coro
  | Cannot_co_return_after_cleanup_without_a_cleanup_arg
  | MemberTask_must_be_passed_as_FOLLY_INVOKE_MEMBER
  | No_such_storage_index

text \<open>
  \<open>async_closure_wrap_coro<OuterSafety, InnerSafety, OuterMover>\<close>. The constant
  \<open>safe_alias::closure_min_arg_safety\<close> is declared in SafeAlias.h, which is not
  among the sources: it is the parameter \<open>closure_min_arg_safety\<close> of every
  function that reads it. (The message of lines 248-252 calls it \<open>shared_cleanup\<close>,
  a level that the spec's list does not have; the test \<open>checkSafety\<close>,
  AsyncClosureTest.cpp lines 112-134, puts it above \<open>unsafe_closure_internal\<close> and
  no higher than \<open>co_cleanup_safe_ref\<close>.)
\<close>

record ('r, 'e) async_closure_wrap_coro =
  OuterSafety :: safe_alias
  InnerSafety :: safe_alias
  outer_mover :: "('r, 'e) task"

definition has_safe_args :: "safe_alias \<Rightarrow> ('r, 'e) async_closure_wrap_coro \<Rightarrow> bool" where
  "has_safe_args closure_min_arg_safety w = (OuterSafety w \<ge> closure_min_arg_safety)"

definition is_inner_coro_safe :: "('r, 'e) async_closure_wrap_coro \<Rightarrow> bool" where
  "is_inner_coro_safe w = (InnerSafety w \<ge> unsafe_closure_internal)"

definition is_safe :: "safe_alias \<Rightarrow> ('r, 'e) async_closure_wrap_coro \<Rightarrow> bool" where
  "is_safe closure_min_arg_safety w =
     (has_safe_args closure_min_arg_safety w \<and> is_inner_coro_safe w)"

definition release_outer_coro ::
  "safe_alias \<Rightarrow> ('r, 'e) async_closure_wrap_coro \<Rightarrow> static_assert_failure + ('r, 'e) task" where
  "release_outer_coro closure_min_arg_safety w =
     (if \<not> has_safe_args closure_min_arg_safety w
      then Inl Args_must_have_safe_alias_of_at_least_shared_cleanup
      else if \<not> is_inner_coro_safe w
      then Inl Only_SafeTask_is_supported_as_the_inner_coro
      else Inr (outer_mover w))"

section \<open>\<open>bind_captures_to_closure\<close> (lines 304-509)\<close>

text \<open>
  The bindings that \<open>async_closure_bind_inner_coro_arg\<close> (lines 304-333) tells
  apart. Their classification (detail/AsyncClosureBindings.h) is not among the sources.
  A binding other than an outer-stored one carries a number that identifies the bound
  value.
\<close>

datatype 'e binding =
    async_closure_outer_stored_arg "'e stored_arg"
  | async_closure_inner_stored_arg nat
  | async_closure_scope_self_ref_hack nat
  | any_capture nat
  | async_closure_regular_arg nat

fun is_outer_stored :: "'e binding \<Rightarrow> bool" where
  "is_outer_stored (async_closure_outer_stored_arg _) = True"
| "is_outer_stored _ = False"

text \<open>Lines 382-393, "(1) Collect the args that need storage on the outer coro".\<close>

fun outer_stored_args :: "'e binding list \<Rightarrow> 'e stored_arg list" where
  "outer_stored_args [] = []"
| "outer_stored_args (async_closure_outer_stored_arg b # bs) = b # outer_stored_args bs"
| "outer_stored_args (_ # bs) = outer_stored_args bs"

text \<open>
  Heap allocation: \<open>heap\<close> is the number of allocations that will still succeed, and
  an allocation beyond it throws \<open>std::bad_alloc\<close>.
\<close>

fun allocate :: "nat \<Rightarrow> nat option" where
  "allocate 0 = None"
| "allocate (Suc heap) = Some heap"

text \<open>
  Lines 370-380: \<open>std::nullopt\<close> when no argument needs storage, else
  \<open>std::make_unique<async_closure_storage<...>>\<close>, "(2) Construct all the storage
  args in-place in one tuple", left to right (line 285). The result is the heap left, the
  storage pointer and the steps, or \<open>None\<close> for \<open>bad_alloc\<close>.
\<close>

definition make_storage ::
  "bool \<Rightarrow> nat \<Rightarrow> 'e stored_arg list \<Rightarrow>
   (nat \<times> 'e async_closure_storage option \<times> 'e event list) option" where
  "make_storage kIsDebug heap sas =
     (if sas = [] then Some (heap, None, [])
      else (case allocate heap of
              None \<Rightarrow> None
            | Some heap' \<Rightarrow>
                Some (heap',
                      Some \<lparr>inner_err = async_closure_default_inner_err kIsDebug,
                            storage_tuple = sas\<rparr>,
                      map (\<lambda>arg. Construct (arg_id arg)) sas)))"

text \<open>The indices into the storage tuple, lines 424-428.\<close>

definition StorageIs :: "'e binding list \<Rightarrow> nat list" where
  "StorageIs b_tup =
     cumsum_except_last 0 (map (\<lambda>bs. if is_outer_stored bs then 1 else 0) b_tup)"

text \<open>
  What the inner coroutine is given for a binding: a \<open>capture\<close> reference to a slot
  of the storage, or the bound value itself, moved (by kind of binding); and, for a
  \<open>FOLLY_INVOKE_MEMBER\<close>, the first argument dereferenced (lines 402-417).
\<close>

datatype 'e inner_arg =
    to_capture_ref "'e stored_arg"
  | inner_stored nat
  | scope_self_ref nat
  | moved_capture nat
  | what_to_bind nat
  | deref "'e inner_arg"

text \<open>\<open>get_from_storage_ptr\<close> (lines 263-266); \<open>None\<close> does not compile.\<close>

definition get_from_storage_ptr ::
  "nat \<Rightarrow> 'e async_closure_storage option \<Rightarrow> 'e stored_arg option" where
  "get_from_storage_ptr Idx p =
     (case p of
        None \<Rightarrow> None
      | Some st \<Rightarrow>
          if Idx < length (storage_tuple st) then Some (storage_tuple st ! Idx) else None)"

fun async_closure_bind_inner_coro_arg ::
  "nat \<Rightarrow> 'e binding \<Rightarrow> 'e async_closure_storage option \<Rightarrow> 'e inner_arg option" where
  "async_closure_bind_inner_coro_arg StorageI (async_closure_outer_stored_arg _) storage_ptr =
     map_option to_capture_ref (get_from_storage_ptr StorageI storage_ptr)"
| "async_closure_bind_inner_coro_arg StorageI (async_closure_inner_stored_arg v) storage_ptr =
     Some (inner_stored v)"
| "async_closure_bind_inner_coro_arg StorageI (async_closure_scope_self_ref_hack v) storage_ptr =
     Some (scope_self_ref v)"
| "async_closure_bind_inner_coro_arg StorageI (any_capture v) storage_ptr =
     Some (moved_capture v)"
| "async_closure_bind_inner_coro_arg StorageI (async_closure_regular_arg v) storage_ptr =
     Some (what_to_bind v)"

text \<open>Lines 395-430: \<open>Bs\<close>, \<open>ArgIs\<close> and \<open>StorageIs\<close> unpacked jointly.\<close>

definition bind_inner_coro_args ::
  "bool \<Rightarrow> 'e binding list \<Rightarrow> 'e async_closure_storage option \<Rightarrow> 'e inner_arg option list" where
  "bind_inner_coro_args is_invoke_member b_tup storage_ptr =
     map (\<lambda>(ArgI, StorageI, bs).
            map_option (\<lambda>a. if is_invoke_member \<and> ArgI = 0 then deref a else a)
              (async_closure_bind_inner_coro_arg StorageI bs storage_ptr))
       (zip [0..<length b_tup] (zip (StorageIs b_tup) b_tup))"

text \<open>
  Each cleanup task is a coroutine of its own: calling \<open>co_cleanup\<close> allocates its
  frame ("\<open>bad_alloc\<close> safety: make the tasks before awaiting the inner coro",
  line 108). C++ leaves open in which order the arguments of \<open>tuple_cat\<close> (line 113)
  are evaluated; here the tasks are made in the order of the pack (a compiler may choose
  another; the order in which the tasks are awaited does not depend on it). The result is
  the heap left, or \<open>None\<close> for \<open>bad_alloc\<close>, and the tasks made until then.
\<close>

fun make_cleanup_tasks :: "nat \<Rightarrow> cleanup_task list \<Rightarrow> nat option \<times> 'e event list" where
  "make_cleanup_tasks heap [] = (Some heap, [])"
| "make_cleanup_tasks heap (t # ts) =
     (case allocate heap of
        None \<Rightarrow> (None, [])
      | Some heap' \<Rightarrow>
          (case make_cleanup_tasks heap' ts of
             (r, evs) \<Rightarrow> (r, MakeCleanupTask (owner t) (part t) # evs)))"

text \<open>
  \<open>async_closure_make_outer_coro\<close> (lines 88-117): the cleanup tasks first, as the
  argument of the outer \<open>apply\<close>, then the outer coroutine, whose type is the
  \<open>conditional_t\<close> of lines 126-129. \<open>None\<close> is \<open>bad_alloc\<close>.
\<close>

definition async_closure_make_outer_coro ::
  "safe_alias \<Rightarrow> nat \<Rightarrow> bool \<Rightarrow> ('r \<Rightarrow> 'r) option \<Rightarrow> safe_alias \<Rightarrow> ('r, 'e) Try \<Rightarrow>
   'e async_closure_storage \<Rightarrow> ('r, 'e) task option \<times> 'e event list" where
  "async_closure_make_outer_coro closure_min_arg_safety heap SetCancelTok
       result_after_cleanup OuterSafety' inner_mover storage_ptr =
     (let cleanups = reversed_noexcept_cleanups storage_ptr
      in case make_cleanup_tasks heap cleanups of
           (None, evs) \<Rightarrow> (None, evs)
         | (Some heap', evs) \<Rightarrow>
             (case allocate heap' of
                None \<Rightarrow> (None, evs)
              | Some _ \<Rightarrow>
                  (Some \<lparr>task_type = (if OuterSafety' \<ge> closure_min_arg_safety
                                      then SafeTask OuterSafety' else NowTask),
                         coro = outer_coro SetCancelTok result_after_cleanup inner_mover
                                  storage_ptr cleanups\<rparr>,
                   evs @ [MakeOuterCoro])))"

text \<open>
  The configuration \<open>Cfg\<close>, and what is known statically of the coroutine that
  \<open>make_inner_coro\<close> returns: its type, the \<open>arg_safety\<close> of its
  \<open>safe_task_traits\<close>, whether it is a \<open>MemberTask\<close>, and the
  \<open>result_after_cleanup\<close> of its result type, if it has one.
\<close>

record async_closure_config =
  force_outer_coro :: bool
  force_shared_cleanup :: bool
  is_invoke_member :: bool

record 'r inner_coro_traits =
  raw_type :: task_type
  arg_safety :: safe_alias
  is_member_task :: bool
  result_after_cleanup :: "('r \<Rightarrow> 'r) option"

text \<open>
  What \<open>bind_captures_to_closure\<close> gives: a program that does not compile, an
  exception thrown while building, the \<open>NowTask\<close> of line 504 or the wrapper of
  line 506.
\<close>

datatype ('r, 'e) closure =
    ill_formed static_assert_failure
  | thrown "'e exn"
  | now_task "('r, 'e) task"
  | wrap_coro "('r, 'e) async_closure_wrap_coro"

text \<open>
  The \<open>static_assert\<close>s of \<open>bind_captures_to_closure\<close> (lines 477-482 and
  487-489; the second stands in the branch without storage). They are decided when the
  function is instantiated, before anything is built.
\<close>

definition static_asserts ::
  "async_closure_config \<Rightarrow> 'r inner_coro_traits \<Rightarrow> 'e binding list \<Rightarrow>
   static_assert_failure option" where
  "static_asserts Cfg traits b_tup =
     (if is_member_task traits \<noteq> is_invoke_member Cfg
      then Some MemberTask_must_be_passed_as_FOLLY_INVOKE_MEMBER
      else if outer_stored_args b_tup = [] \<and> result_after_cleanup traits \<noteq> None
      then Some Cannot_co_return_after_cleanup_without_a_cleanup_arg
      else None)"

text \<open>
  \<open>bind_captures_to_closure\<close>. \<open>make_inner_coro\<close> maps the bound arguments to
  what awaiting the inner coroutine will give. The steps, in the order of the source:
  the storage (lines 370-393); the inner coroutine, whose frame is allocated (lines
  395-430); \<open>OuterSafety\<close> and \<open>InnerSafety\<close> (lines 433-438); the inner mover with
  its new safety (lines 447-468); the outer mover (lines 484-501); the result (lines
  503-508). An exception that leaves the function destroys the storage built so far.
\<close>

definition bind_captures_to_closure ::
  "bool \<Rightarrow> safe_alias \<Rightarrow> async_closure_config \<Rightarrow> 'r inner_coro_traits \<Rightarrow> nat \<Rightarrow>
   ('e inner_arg list \<Rightarrow> ('r, 'e) Try) \<Rightarrow> safe_alias list \<times> 'e binding list \<Rightarrow>
   ('r, 'e) closure \<times> 'e event list" where
  "bind_captures_to_closure kIsDebug closure_min_arg_safety Cfg traits heap make_inner_coro
       safeties_and_binds =
     (let arg_safeties = fst safeties_and_binds;
          b_tup = snd safeties_and_binds;
          OuterSafety' = (if force_shared_cleanup Cfg then unsafe
                          else least_safe_alias arg_safeties);
          InnerSafety' = arg_safety traits;
          inner_type = (if InnerSafety' \<ge> unsafe_closure_internal
                        then SafeTask (max OuterSafety' closure_min_arg_safety)
                        else raw_type traits);
          finish = (\<lambda>t. if force_shared_cleanup Cfg then now_task (toNowTask t)
                         else wrap_coro \<lparr>OuterSafety = OuterSafety',
                                          InnerSafety = InnerSafety',
                                          outer_mover = t\<rparr>)
      in case static_asserts Cfg traits b_tup of
           Some failure \<Rightarrow> (ill_formed failure, [])
         | None \<Rightarrow>
        (case make_storage kIsDebug heap (outer_stored_args b_tup) of
           None \<Rightarrow> (thrown bad_alloc, [])
         | Some (heap1, storage_ptr, evs1) \<Rightarrow>
             (case those (bind_inner_coro_args (is_invoke_member Cfg) b_tup storage_ptr) of
                None \<Rightarrow> (ill_formed No_such_storage_index, [])
              | Some args \<Rightarrow>
                  (case allocate heap1 of
                     None \<Rightarrow>
                       (thrown bad_alloc,
                        evs1 @ (case storage_ptr of None \<Rightarrow> []
                                | Some st \<Rightarrow> destroy_storage st))
                   | Some heap2 \<Rightarrow>
                       (case storage_ptr of
                          None \<Rightarrow>
                            (finish \<lparr>task_type = inner_type,
                                     coro = inner_coro (make_inner_coro args)\<rparr>,
                             evs1 @ [MakeInnerCoro])
                        | Some st \<Rightarrow>
                            (case async_closure_make_outer_coro closure_min_arg_safety heap2
                                    True (result_after_cleanup traits) OuterSafety'
                                    (make_inner_coro args) st of
                               (None, evs3) \<Rightarrow>
                                 (thrown bad_alloc,
                                  evs1 @ [MakeInnerCoro] @ evs3 @ destroy_storage st)
                             | (Some t, evs3) \<Rightarrow>
                                 (finish t, evs1 @ [MakeInnerCoro] @ evs3)))))))"

text \<open>The task that a built closure holds, released or not.\<close>

fun the_task :: "('r, 'e) closure \<Rightarrow> ('r, 'e) task option" where
  "the_task (now_task t) = Some t"
| "the_task (wrap_coro w) = Some (outer_mover w)"
| "the_task _ = None"

text \<open>The storage that \<open>bind_captures_to_closure\<close> builds for a tuple of bindings.\<close>

definition storage_of :: "bool \<Rightarrow> 'e binding list \<Rightarrow> 'e async_closure_storage" where
  "storage_of kIsDebug b_tup =
     \<lparr>inner_err = async_closure_default_inner_err kIsDebug,
      storage_tuple = outer_stored_args b_tup\<rparr>"

section \<open>Reading a trace\<close>

text \<open>
  The cleanup tasks awaited in a trace, in order: the owner, the position in the owner's
  tuple, and what the task saw. Likewise the cleanup tasks made, the arguments
  constructed and the arguments destroyed.
\<close>

fun awaited_cleanups :: "'e event list \<Rightarrow> (nat \<times> nat \<times> 'e exception_wrapper option) list" where
  "awaited_cleanups [] = []"
| "awaited_cleanups (AwaitCleanup a k seen # evs) = (a, k, seen) # awaited_cleanups evs"
| "awaited_cleanups (_ # evs) = awaited_cleanups evs"

fun made_cleanups :: "'e event list \<Rightarrow> (nat \<times> nat) list" where
  "made_cleanups [] = []"
| "made_cleanups (MakeCleanupTask a k # evs) = (a, k) # made_cleanups evs"
| "made_cleanups (_ # evs) = made_cleanups evs"

fun constructed :: "'e event list \<Rightarrow> nat list" where
  "constructed [] = []"
| "constructed (Construct a # evs) = a # constructed evs"
| "constructed (_ # evs) = constructed evs"

fun destroyed :: "'e event list \<Rightarrow> nat list" where
  "destroyed [] = []"
| "destroyed (Destroy a # evs) = a # destroyed evs"
| "destroyed (_ # evs) = destroyed evs"

fun is_AwaitCleanup :: "'e event \<Rightarrow> bool" where
  "is_AwaitCleanup (AwaitCleanup _ _ _) = True"
| "is_AwaitCleanup _ = False"

fun is_Destroy :: "'e event \<Rightarrow> bool" where
  "is_Destroy (Destroy _) = True"
| "is_Destroy _ = False"

text \<open>
  Lines 142-151 as a whole: with \<open>SetCancelTok\<close>, the steps of delivering the token
  and the wrapper that \<open>try_and_catch\<close> returns; without, nothing.
\<close>

definition set_cancel_tokens :: "bool \<Rightarrow> 'e stored_arg list \<Rightarrow> 'e event list \<times> 'e exception_wrapper" where
  "set_cancel_tokens SetCancelTok args =
     (if SetCancelTok then try_and_catch_set_cancel_tokens args else ([], None))"

text \<open>What a cleanup task shows in the trace when \<open>inner_err_\<close> holds \<open>err\<close>.\<close>

definition cleanup_seeing :: "'e exception_wrapper \<Rightarrow> cleanup_task \<Rightarrow> nat \<times> nat \<times> 'e exception_wrapper option" where
  "cleanup_seeing err t = (owner t, part t, if takes_err t then Some err else None)"

text \<open>
  How many cleanup coroutines the hook of an argument stands for: a \<open>co_cleanup\<close>
  returns one task, a \<open>privateHack_co_cleanup\<close> a tuple of them, and an argument
  without hook has none (lines 48-70).
\<close>

fun cleanup_count :: "cleanup_hook \<Rightarrow> nat" where
  "cleanup_count (privateHack_co_cleanup n) = n"
| "cleanup_count co_cleanup_with_error = 1"
| "cleanup_count co_cleanup_error_oblivious = 1"
| "cleanup_count no_co_cleanup = 0"

section \<open>The arguments of the tests\<close>

text \<open>
  Arguments in the manner of AsyncClosureTest.cpp: \<open>OrderTracker\<close> (lines 791-810)
  has a \<open>co_cleanup(priv)\<close>; \<open>HasCleanup\<close> (lines 511-521) has a
  \<open>co_cleanup(priv, err)\<close> that records the error it is shown. The third has a
  \<open>setParentCancelToken\<close> that throws \<open>bad_alloc\<close>, as
  "\<open>CancellationToken::merge()\<close> may allocate" (AsyncClosure.h, line 141).
  \<open>MagicError{111}\<close> (test, lines 532-541) is \<open>UserError 111\<close>.
\<close>

definition OrderTracker :: "nat \<Rightarrow> nat stored_arg" where
  "OrderTracker n =
     \<lparr>arg_id = n, cancel_hook = no_cancel_hook, cleanup_hook = co_cleanup_error_oblivious\<rparr>"

definition HasCleanup :: "nat \<Rightarrow> nat stored_arg" where
  "HasCleanup n =
     \<lparr>arg_id = n, cancel_hook = no_cancel_hook, cleanup_hook = co_cleanup_with_error\<rparr>"

definition ThrowingScope :: "nat \<Rightarrow> nat stored_arg" where
  "ThrowingScope n =
     \<lparr>arg_id = n, cancel_hook = setParentCancelToken (Some bad_alloc),
      cleanup_hook = co_cleanup_with_error\<rparr>"

definition test_storage :: "nat stored_arg list \<Rightarrow> nat async_closure_storage" where
  "test_storage args = \<lparr>inner_err = async_closure_default_inner_err True, storage_tuple = args\<rparr>"

text \<open>
  An inner coroutine whose outcome does not depend on how its arguments are bound, and
  the configuration and coroutine type of a plain \<open>async_closure\<close> over a
  \<open>ClosureTask\<close> (as in the test \<open>ctorCleanupDtorOrdering\<close>, lines 812-835).
\<close>

definition inner_returning :: "('r, 'e) Try \<Rightarrow> 'e inner_arg list \<Rightarrow> ('r, 'e) Try" where
  "inner_returning r args = r"

definition plain_closure :: async_closure_config where
  "plain_closure =
     \<lparr>force_outer_coro = False, force_shared_cleanup = False, is_invoke_member = False\<rparr>"

definition now_closure :: async_closure_config where
  "now_closure =
     \<lparr>force_outer_coro = False, force_shared_cleanup = True, is_invoke_member = False\<rparr>"

definition ClosureTask :: "nat inner_coro_traits" where
  "ClosureTask =
     \<lparr>raw_type = SafeTask unsafe_closure_internal, arg_safety = unsafe_closure_internal,
      is_member_task = False, result_after_cleanup = None\<rparr>"

text \<open>
  The type of a coroutine that is a plain \<open>Task\<close>, taking raw references (the test
  \<open>nowClosure\<close>, lines 719-732).
\<close>

definition PlainTask :: "nat inner_coro_traits" where
  "PlainTask =
     \<lparr>raw_type = OtherTask, arg_safety = unsafe,
      is_member_task = False, result_after_cleanup = None\<rparr>"

section \<open>The storage indices\<close>

lemma cumsum_except_last_length: "length (cumsum_except_last s vs) = length vs"
  by (induction vs arbitrary: s) auto

lemma cumsum_except_last_nth:
  "i < length vs \<Longrightarrow> cumsum_except_last s vs ! i = s + sum_list (take i vs)"
proof (induction vs arbitrary: s i)
  case Nil
  then show ?case by simp
next
  case (Cons v vs)
  show ?case
  proof (cases i)
    case 0
    then show ?thesis by simp
  next
    case (Suc j)
    with Cons.prems have "j < length vs" by simp
    from Cons.IH [OF this, of "s + v"] Suc show ?thesis
      by (simp add: add.assoc)
  qed
qed

lemma outer_stored_args_append:
  "outer_stored_args (xs @ ys) = outer_stored_args xs @ outer_stored_args ys"
  by (induction xs rule: outer_stored_args.induct) auto

lemma sum_list_is_outer_stored:
  "sum_list (map (\<lambda>bs. if is_outer_stored bs then 1 else 0) xs) = length (outer_stored_args xs)"
  by (induction xs rule: outer_stored_args.induct) auto

lemma StorageIs_length: "length (StorageIs b_tup) = length b_tup"
  by (simp add: StorageIs_def cumsum_except_last_length)

lemma StorageIs_nth:
  "i < length b_tup \<Longrightarrow> StorageIs b_tup ! i = length (outer_stored_args (take i b_tup))"
  by (simp add: StorageIs_def cumsum_except_last_nth take_map sum_list_is_outer_stored)

lemma storage_index_correct:
  assumes "i < length b_tup" and "b_tup ! i = async_closure_outer_stored_arg a"
  shows "StorageIs b_tup ! i < length (outer_stored_args b_tup)
       \<and> outer_stored_args b_tup ! (StorageIs b_tup ! i) = a"
proof -
  have split: "b_tup = take i b_tup @ async_closure_outer_stored_arg a # drop (Suc i) b_tup"
    using assms id_take_nth_drop by fastforce
  have "outer_stored_args b_tup
      = outer_stored_args (take i b_tup) @ a # outer_stored_args (drop (Suc i) b_tup)"
    by (subst split) (simp add: outer_stored_args_append)
  then show ?thesis
    using assms(1) by (simp add: StorageIs_nth nth_append)
qed

text \<open>
  C10. For every seed \<open>S\<close> and every sequence of values \<open>vs\<close>,
  \<open>cumsum_except_last<S, vs...>\<close> is the sequence, as long as \<open>vs\<close>, of the
  exclusive prefix sums \<open>S, S + v1, ..., S + v1 + ... + v(n-1)\<close>: its \<open>i\<close>-th
  element is \<open>S\<close> plus the sum of the first \<open>i\<close> values, so the last value
  enters no element. The values are of any type whose \<open>+\<close> is associative with a
  zero (the naturals, the integers, machine words). And the index that
  \<open>bind_captures_to_closure\<close> computes with it for an outer-stored binding is the
  slot of the storage tuple that holds that binding's argument.
\<close>

theorem cumsum_except_last_prefix_sums:
  "cumsum_except_last S vs = map (\<lambda>i. S + sum_list (take i vs)) [0..<length vs]
   \<and> (\<forall>i a. i < length b_tup \<longrightarrow> b_tup ! i = async_closure_outer_stored_arg a \<longrightarrow>
         get_from_storage_ptr (StorageIs b_tup ! i)
           (Some \<lparr>inner_err = err, storage_tuple = outer_stored_args b_tup\<rparr>) = Some a)"
proof (intro conjI allI impI)
  show "cumsum_except_last S vs = map (\<lambda>i. S + sum_list (take i vs)) [0..<length vs]"
    by (rule nth_equalityI) (simp_all add: cumsum_except_last_length cumsum_except_last_nth)
next
  fix i a
  assume "i < length b_tup" and "b_tup ! i = async_closure_outer_stored_arg a"
  from storage_index_correct [OF this]
  show "get_from_storage_ptr (StorageIs b_tup ! i)
          (Some \<lparr>inner_err = err, storage_tuple = outer_stored_args b_tup\<rparr>) = Some a"
    by (simp add: get_from_storage_ptr_def)
qed

text \<open>
  The test of AsyncClosureTest.cpp, lines 64-66: \<open><0, 2, 1, 3>\<close> gives
  \<open><0, 2, 3>\<close>; and a tuple of four bindings whose second and fourth are stored.
\<close>

theorem cumsum_except_last_prefix_sums_witness:
  "cumsum_except_last (0::nat) [2, 1, 3] = [0, 2, 3]
   \<and> get_from_storage_ptr
        (StorageIs ([async_closure_regular_arg 0,
                     async_closure_outer_stored_arg
                       \<lparr>arg_id = 1, cancel_hook = no_cancel_hook, cleanup_hook = no_co_cleanup\<rparr>,
                     any_capture 2,
                     async_closure_outer_stored_arg
                       \<lparr>arg_id = 3, cancel_hook = no_cancel_hook,
                         cleanup_hook = co_cleanup_with_error\<rparr>] :: unit binding list) ! 3)
        (Some \<lparr>inner_err = (None :: unit exception_wrapper),
               storage_tuple =
                 [\<lparr>arg_id = 1, cancel_hook = no_cancel_hook, cleanup_hook = no_co_cleanup\<rparr>,
                  \<lparr>arg_id = 3, cancel_hook = no_cancel_hook,
                    cleanup_hook = co_cleanup_with_error\<rparr>]\<rparr>)
      = Some \<lparr>arg_id = 3, cancel_hook = no_cancel_hook, cleanup_hook = co_cleanup_with_error\<rparr>"
proof -
  let ?a1 = "\<lparr>arg_id = 1, cancel_hook = no_cancel_hook, cleanup_hook = no_co_cleanup\<rparr>
             :: unit stored_arg"
  let ?a3 = "\<lparr>arg_id = 3, cancel_hook = no_cancel_hook, cleanup_hook = co_cleanup_with_error\<rparr>
             :: unit stored_arg"
  let ?bs = "[async_closure_regular_arg 0, async_closure_outer_stored_arg ?a1,
              any_capture 2, async_closure_outer_stored_arg ?a3]"
  note inst = cumsum_except_last_prefix_sums [of "0::nat" "[2, 1, 3]" ?bs "None"]
  from inst have "cumsum_except_last (0::nat) [2, 1, 3] = [0, 2, 3]"
    by (simp add: upt_rec)
  moreover from inst have "3 < length ?bs \<longrightarrow> ?bs ! 3 = async_closure_outer_stored_arg ?a3 \<longrightarrow>
      get_from_storage_ptr (StorageIs ?bs ! 3)
        (Some \<lparr>inner_err = None, storage_tuple = outer_stored_args ?bs\<rparr>) = Some ?a3"
    by blast
  ultimately show ?thesis by simp
qed

section \<open>The outer coroutine in closed form\<close>

lemma awaited_cleanups_append:
  "awaited_cleanups (xs @ ys) = awaited_cleanups xs @ awaited_cleanups ys"
  by (induction xs rule: awaited_cleanups.induct) auto

lemma made_cleanups_append: "made_cleanups (xs @ ys) = made_cleanups xs @ made_cleanups ys"
  by (induction xs rule: made_cleanups.induct) auto

lemma constructed_append: "constructed (xs @ ys) = constructed xs @ constructed ys"
  by (induction xs rule: constructed.induct) auto

lemma destroyed_append: "destroyed (xs @ ys) = destroyed xs @ destroyed ys"
  by (induction xs rule: destroyed.induct) auto

lemma awaited_cleanups_await:
  "awaited_cleanups (map (await_cleanup st) cl) = map (cleanup_seeing (inner_err st)) cl"
  by (induction cl) (simp_all add: await_cleanup_def cleanup_seeing_def)

lemma set_cancel_token_events:
  "ev \<in> set (fst (async_closure_set_cancel_token arg)) \<Longrightarrow> ev = SetCancelToken (arg_id arg)"
  by (auto simp: async_closure_set_cancel_token_def split: cancel_hook.splits)

lemma try_and_catch_events:
  "ev \<in> set (fst (try_and_catch_set_cancel_tokens args)) \<Longrightarrow> \<exists>a. ev = SetCancelToken a"
proof (induction args)
  case Nil
  then show ?case by simp
next
  case (Cons arg args)
  obtain e1 t1 where first: "async_closure_set_cancel_token arg = (e1, t1)"
    by (cases "async_closure_set_cancel_token arg")
  obtain e2 t2 where rest: "try_and_catch_set_cancel_tokens args = (e2, t2)"
    by (cases "try_and_catch_set_cancel_tokens args")
  from first have "\<And>e. e \<in> set e1 \<Longrightarrow> e = SetCancelToken (arg_id arg)"
    using set_cancel_token_events [of _ arg] by simp
  with Cons first rest show ?case
    by (cases t1) auto
qed

lemma set_cancel_tokens_events:
  "ev \<in> set (fst (set_cancel_tokens T args)) \<Longrightarrow> \<exists>a. ev = SetCancelToken a"
  by (auto simp: set_cancel_tokens_def dest: try_and_catch_events split: if_splits)

lemma only_SetCancelToken:
  assumes "\<And>ev. ev \<in> set evs \<Longrightarrow> \<exists>a. ev = SetCancelToken a"
  shows "awaited_cleanups evs = [] \<and> made_cleanups evs = [] \<and> constructed evs = []
       \<and> destroyed evs = [] \<and> AwaitInner \<notin> set evs \<and> Finish \<notin> set evs"
  using assms
proof (induction evs)
  case Nil
  then show ?case by simp
next
  case (Cons ev evs)
  from Cons.prems [of ev] obtain a where "ev = SetCancelToken a" by auto
  with Cons show ?case by auto
qed

lemma set_cancel_tokens_silent:
  assumes "set_cancel_tokens T args = (evs, err)"
  shows "awaited_cleanups evs = []" and "made_cleanups evs = []" and "constructed evs = []"
    and "destroyed evs = []" and "AwaitInner \<notin> set evs" and "Finish \<notin> set evs"
proof -
  have "\<And>ev. ev \<in> set evs \<Longrightarrow> \<exists>a. ev = SetCancelToken a"
    using set_cancel_tokens_events [of _ T args] assms by simp
  from only_SetCancelToken [OF this]
  show "awaited_cleanups evs = []" and "made_cleanups evs = []" and "constructed evs = []"
    and "destroyed evs = []" and "AwaitInner \<notin> set evs" and "Finish \<notin> set evs"
    by simp_all
qed

lemma try_and_catch_first_throw:
  "snd (try_and_catch_set_cancel_tokens args) =
     (case find (\<lambda>a. snd (async_closure_set_cancel_token a) \<noteq> None) args of
        None \<Rightarrow> None
      | Some a \<Rightarrow> snd (async_closure_set_cancel_token a))"
  by (induction args) (auto split: prod.splits option.splits)

lemma default_inner_err_reset:
  "T \<or> inner_err st = async_closure_default_inner_err D \<Longrightarrow>
   (if D then st\<lparr>inner_err := None\<rparr> else st)\<lparr>inner_err := err\<rparr> = st\<lparr>inner_err := err\<rparr>
   \<and> (\<not> T \<longrightarrow> (if D then st\<lparr>inner_err := None\<rparr> else st) = st\<lparr>inner_err := None\<rparr>)"
  by (cases st) (auto simp: async_closure_default_inner_err_def)

lemma outer_coro_token_failure:
  assumes "set_cancel_tokens T (storage_tuple st) = (evs, Some x)"
  shows "async_closure_outer_coro N D T rac inner st cl =
     (Inr (TryException (Some UsingUninitializedTry)), st\<lparr>inner_err := Some x\<rparr>,
      evs @ map (await_cleanup (st\<lparr>inner_err := Some x\<rparr>)) cl @ [Finish])"
proof -
  from assms have T: "T"
    and tok: "try_and_catch_set_cancel_tokens (storage_tuple st) = (evs, Some x)"
    by (auto simp: set_cancel_tokens_def split: if_splits)
  show ?thesis
    unfolding async_closure_outer_coro_def
    using T tok
    by (simp add: Let_def has_exception_def co_yield_co_error_def co_error_def exception_def)
qed

lemma outer_coro_inner_awaited:
  assumes "T \<or> inner_err st = async_closure_default_inner_err D"
    and "set_cancel_tokens T (storage_tuple st) = (evs, None)"
  shows "async_closure_outer_coro N D T rac inner st cl =
     (case inner of
        TryValue v \<Rightarrow>
          (Inr (TryValue (async_closure_outer_coro_result rac v)), st\<lparr>inner_err := None\<rparr>,
           evs @ [AwaitInner] @ map (await_cleanup (st\<lparr>inner_err := None\<rparr>)) cl @ [Finish])
      | TryException ew \<Rightarrow>
          (co_yield_co_error N ew, st\<lparr>inner_err := None\<rparr>,
           evs @ [AwaitInner] @ map (await_cleanup (st\<lparr>inner_err := ew\<rparr>)) cl
             @ (case (co_yield_co_error N ew :: ('a, 'b) completion) of
                  Inl _ \<Rightarrow> [] | Inr _ \<Rightarrow> [Finish]))
      | TryNothing \<Rightarrow>
          (Inr (TryException (Some UsingUninitializedTry)), st\<lparr>inner_err := None\<rparr>,
           evs @ [AwaitInner] @ map (await_cleanup (st\<lparr>inner_err := None\<rparr>)) cl @ [Finish]))"
proof (cases T)
  case True
  with assms(2) have "try_and_catch_set_cancel_tokens (storage_tuple st) = (evs, None)"
    by (simp add: set_cancel_tokens_def)
  with True show ?thesis
    unfolding async_closure_outer_coro_def
    by (cases inner)
       (simp_all add: Let_def has_exception_def co_yield_co_error_def co_error_def exception_def)
next
  case False
  with assms(2) have "evs = []"
    by (simp add: set_cancel_tokens_def)
  moreover from False assms(1)
  have "(if D then st\<lparr>inner_err := None\<rparr> else st) = st\<lparr>inner_err := None\<rparr>"
    using default_inner_err_reset [of T st D] by simp
  ultimately show ?thesis
    unfolding async_closure_outer_coro_def using False
    by (cases inner)
       (simp_all add: Let_def has_exception_def co_yield_co_error_def co_error_def exception_def)
qed

section \<open>The cleanup tasks of the hooks\<close>

lemma cleanup_tuple_tasks:
  "map (\<lambda>t. (owner t, part t)) (async_closure_make_cleanup_tuple a)
     = map (Pair (arg_id a)) [0..<cleanup_count (cleanup_hook a)]"
  by (cases "cleanup_hook a") (simp_all add: async_closure_make_cleanup_tuple_def comp_def)

lemma reversed_cleanups_tasks:
  "map (\<lambda>t. (owner t, part t)) (reversed_noexcept_cleanups st)
     = concat (map (\<lambda>a. map (Pair (arg_id a)) [0..<cleanup_count (cleanup_hook a)])
                 (rev (storage_tuple st)))"
  by (simp add: reversed_noexcept_cleanups_def map_concat comp_def cleanup_tuple_tasks)

lemma length_cleanup_tuple:
  "length (async_closure_make_cleanup_tuple a) = cleanup_count (cleanup_hook a)"
  by (cases "cleanup_hook a") (simp_all add: async_closure_make_cleanup_tuple_def)

lemma length_reversed_cleanups:
  "length (reversed_noexcept_cleanups st)
     = sum_list (map (\<lambda>a. cleanup_count (cleanup_hook a)) (storage_tuple st))"
  by (simp add: reversed_noexcept_cleanups_def length_concat comp_def length_cleanup_tuple
        rev_map [symmetric] sum_list_rev)

lemma error_aware_task:
  assumes "a \<in> set (storage_tuple st)"
    and "cleanup_hook a \<noteq> co_cleanup_error_oblivious"
    and "k < cleanup_count (cleanup_hook a)"
  shows "\<lparr>owner = arg_id a, part = k, takes_err = True\<rparr> \<in> set (reversed_noexcept_cleanups st)"
proof -
  from assms(2,3)
  have "\<lparr>owner = arg_id a, part = k, takes_err = True\<rparr> \<in> set (async_closure_make_cleanup_tuple a)"
    by (cases "cleanup_hook a") (auto simp: async_closure_make_cleanup_tuple_def)
  with assms(1) show ?thesis
    by (auto simp: reversed_noexcept_cleanups_def)
qed

section \<open>The outer coroutine: errors, cleanup and completion\<close>

lemma awaited_cleanups_Finish:
  "awaited_cleanups (case c of Inl x \<Rightarrow> [] | Inr y \<Rightarrow> [Finish]) = []"
  by (cases c) simp_all

lemma AwaitInner_not_cleanup: "AwaitInner \<notin> await_cleanup st ` set cl"
  by (auto simp: await_cleanup_def)

text \<open>
  C4. With \<open>SetCancelTok\<close>: if delivering the token to some stored argument throws,
  then the error of the first argument to throw, in storage order, is what
  \<open>inner_err_\<close> holds afterwards; the inner computation is not awaited; and the
  cleanup tasks awaited are exactly the tasks the coroutine was given, each once and in
  their order, those given the error pointer seeing that error.
\<close>

theorem cancel_token_failure_skips_inner_and_runs_cleanup:
  assumes run: "async_closure_outer_coro NDEBUG kIsDebug True rac inner st cl = (c, st', tr)"
    and thrower: "arg \<in> set (storage_tuple st)"
    and throws: "snd (async_closure_set_cancel_token arg) \<noteq> None"
  shows "(\<exists>a x. find (\<lambda>a. snd (async_closure_set_cancel_token a) \<noteq> None) (storage_tuple st) = Some a
              \<and> snd (async_closure_set_cancel_token a) = Some x
              \<and> inner_err st' = Some x)
       \<and> AwaitInner \<notin> set tr
       \<and> awaited_cleanups tr = map (cleanup_seeing (inner_err st')) cl"
proof -
  let ?throws = "\<lambda>a. snd (async_closure_set_cancel_token a) \<noteq> None"
  from thrower throws obtain a where a: "find ?throws (storage_tuple st) = Some a"
    by (cases "find ?throws (storage_tuple st)") (auto simp: find_None_iff)
  then have "?throws a"
    by (auto simp: find_Some_iff)
  then obtain x where x: "snd (async_closure_set_cancel_token a) = Some x"
    by auto
  with a have err: "snd (try_and_catch_set_cancel_tokens (storage_tuple st)) = Some x"
    by (simp add: try_and_catch_first_throw)
  obtain evs where tok: "set_cancel_tokens True (storage_tuple st) = (evs, Some x)"
    using err by (cases "try_and_catch_set_cancel_tokens (storage_tuple st)")
                 (simp add: set_cancel_tokens_def)
  from tok have silent: "awaited_cleanups evs = []" "AwaitInner \<notin> set evs"
    by (rule set_cancel_tokens_silent)+
  from run [unfolded outer_coro_token_failure [OF tok]]
  have st': "st' = st\<lparr>inner_err := Some x\<rparr>"
    and tr: "tr = evs @ map (await_cleanup (st\<lparr>inner_err := Some x\<rparr>)) cl @ [Finish]"
    by auto
  from a x st' have "\<exists>a x. find ?throws (storage_tuple st) = Some a
      \<and> snd (async_closure_set_cancel_token a) = Some x \<and> inner_err st' = Some x"
    by simp
  moreover from tr silent have "AwaitInner \<notin> set tr"
    by (simp add: AwaitInner_not_cleanup)
  moreover from tr silent st' have "awaited_cleanups tr = map (cleanup_seeing (inner_err st')) cl"
    by (simp add: awaited_cleanups_append awaited_cleanups_await)
  ultimately show ?thesis by blast
qed

text \<open>
  C5. On storage as \<open>async_closure_storage\<close> constructs it. Every cleanup task
  awaited sees, if it was given the error pointer, the first error of the closure: what
  the first failing delivery of the cancellation token threw; else what the inner
  computation failed with; else an empty wrapper. The inner computation is awaited
  exactly when no delivery of the token throws. In that case: if the inner computation
  fails with the error \<open>E\<close>, every such task sees \<open>E\<close>, and the coroutine ends
  with \<open>E\<close> for its awaiter; if it gives a value, every such task sees an empty
  wrapper. And when the tasks are those that \<open>async_closure_make_outer_coro\<close> makes
  for the storage, the \<open>co_cleanup(priv, err)\<close> of every stored argument that has
  one, and every task of a \<open>privateHack_co_cleanup\<close>, is awaited and sees that
  first error.
\<close>

theorem cleanup_hooks_see_first_error:
  assumes run: "async_closure_outer_coro NDEBUG kIsDebug SetCancelTok rac inner st cl = (c, st', tr)"
    and fresh: "SetCancelTok \<or> inner_err st = async_closure_default_inner_err kIsDebug"
  shows "awaited_cleanups tr
           = map (cleanup_seeing
                    (case snd (set_cancel_tokens SetCancelTok (storage_tuple st)) of
                       Some x \<Rightarrow> Some x | None \<Rightarrow> try_exception inner)) cl
       \<and> (AwaitInner \<in> set tr \<longleftrightarrow> snd (set_cancel_tokens SetCancelTok (storage_tuple st)) = None)
       \<and> (snd (set_cancel_tokens SetCancelTok (storage_tuple st)) = None \<longrightarrow>
            (inner = TryException (Some E) \<longrightarrow>
               c = Inr (TryException (Some E))
               \<and> awaited_cleanups tr = map (cleanup_seeing (Some E)) cl)
            \<and> (inner = TryValue v \<longrightarrow>
                 c = Inr (TryValue (async_closure_outer_coro_result rac v))
                 \<and> awaited_cleanups tr = map (cleanup_seeing None) cl))
       \<and> (cl = reversed_noexcept_cleanups st \<longrightarrow>
            (\<forall>a \<in> set (storage_tuple st). \<forall>k < cleanup_count (cleanup_hook a).
               cleanup_hook a \<noteq> co_cleanup_error_oblivious \<longrightarrow>
               (arg_id a, k,
                Some (case snd (set_cancel_tokens SetCancelTok (storage_tuple st)) of
                        Some x \<Rightarrow> Some x | None \<Rightarrow> try_exception inner))
                 \<in> set (awaited_cleanups tr)))"
proof -
  let ?first = "case snd (set_cancel_tokens SetCancelTok (storage_tuple st)) of
                  Some x \<Rightarrow> Some x | None \<Rightarrow> try_exception inner"
  obtain evs err where tok: "set_cancel_tokens SetCancelTok (storage_tuple st) = (evs, err)"
    by (cases "set_cancel_tokens SetCancelTok (storage_tuple st)")
  then have silent: "awaited_cleanups evs = []" "AwaitInner \<notin> set evs"
    by (rule set_cancel_tokens_silent)+
  have seen: "awaited_cleanups tr = map (cleanup_seeing ?first) cl"
    and inner_run: "AwaitInner \<in> set tr \<longleftrightarrow> err = None"
    and outcome: "err = None \<Longrightarrow> inner = TryException (Some E) \<Longrightarrow> c = Inr (TryException (Some E))"
      "err = None \<Longrightarrow> inner = TryValue v \<Longrightarrow> c = Inr (TryValue (async_closure_outer_coro_result rac v))"
  proof -
    show "awaited_cleanups tr = map (cleanup_seeing ?first) cl"
    proof (cases err)
      case (Some x)
      with tok have tokx: "set_cancel_tokens SetCancelTok (storage_tuple st) = (evs, Some x)"
        by simp
      from run [unfolded outer_coro_token_failure [OF tokx]]
      have "tr = evs @ map (await_cleanup (st\<lparr>inner_err := Some x\<rparr>)) cl @ [Finish]"
        by auto
      with silent tokx show ?thesis
        by (simp add: awaited_cleanups_append awaited_cleanups_await)
    next
      case None
      with tok have tok': "set_cancel_tokens SetCancelTok (storage_tuple st) = (evs, None)"
        by simp
      note closed = outer_coro_inner_awaited [OF fresh tok', of NDEBUG rac inner cl]
      from closed run silent tok' show ?thesis
        by (cases inner)
           (auto simp: awaited_cleanups_append awaited_cleanups_await awaited_cleanups_Finish)
    qed
    show "AwaitInner \<in> set tr \<longleftrightarrow> err = None"
    proof (cases err)
      case (Some x)
      with tok have tokx: "set_cancel_tokens SetCancelTok (storage_tuple st) = (evs, Some x)"
        by simp
      from run [unfolded outer_coro_token_failure [OF tokx]]
      have "tr = evs @ map (await_cleanup (st\<lparr>inner_err := Some x\<rparr>)) cl @ [Finish]"
        by auto
      with silent Some show ?thesis
        by (simp add: AwaitInner_not_cleanup)
    next
      case None
      with tok have tok': "set_cancel_tokens SetCancelTok (storage_tuple st) = (evs, None)"
        by simp
      note closed = outer_coro_inner_awaited [OF fresh tok', of NDEBUG rac inner cl]
      from closed run None show ?thesis
        by (cases inner) auto
    qed
    {
      assume none: "err = None"
      with tok have tok': "set_cancel_tokens SetCancelTok (storage_tuple st) = (evs, None)"
        by simp
      note closed = outer_coro_inner_awaited [OF fresh tok', of NDEBUG rac inner cl]
      {
        assume "inner = TryException (Some E)"
        with closed run show "c = Inr (TryException (Some E))"
          by (simp add: co_yield_co_error_def co_error_def has_exception_def exception_def)
      }
      {
        assume "inner = TryValue v"
        with closed run show "c = Inr (TryValue (async_closure_outer_coro_result rac v))"
          by simp
      }
    }
  qed
  have hooks: "(arg_id a, k, Some ?first) \<in> set (awaited_cleanups tr)"
    if "cl = reversed_noexcept_cleanups st" and "a \<in> set (storage_tuple st)"
      and "k < cleanup_count (cleanup_hook a)"
      and "cleanup_hook a \<noteq> co_cleanup_error_oblivious" for a k
  proof -
    from error_aware_task [OF that(2,4,3)] that(1)
    have "\<lparr>owner = arg_id a, part = k, takes_err = True\<rparr> \<in> set cl"
      by simp
    then have "cleanup_seeing ?first \<lparr>owner = arg_id a, part = k, takes_err = True\<rparr>
        \<in> set (map (cleanup_seeing ?first) cl)"
      by (rule imageI [of _ "set cl" "cleanup_seeing ?first", folded set_map])
    then show ?thesis
      by (simp only: seen) (simp add: cleanup_seeing_def)
  qed
  from tok have err: "snd (set_cancel_tokens SetCancelTok (storage_tuple st)) = err"
    by simp
  show ?thesis
  proof (intro conjI impI ballI allI)
    show "awaited_cleanups tr = map (cleanup_seeing ?first) cl"
      by (rule seen)
    show "AwaitInner \<in> set tr \<longleftrightarrow> snd (set_cancel_tokens SetCancelTok (storage_tuple st)) = None"
      by (simp only: err inner_run)
  next
    assume q: "snd (set_cancel_tokens SetCancelTok (storage_tuple st)) = None"
      and i: "inner = TryException (Some E)"
    from q err have "err = None" by simp
    from outcome(1) [OF this i] show "c = Inr (TryException (Some E))" .
    from seen q i show "awaited_cleanups tr = map (cleanup_seeing (Some E)) cl"
      by simp
  next
    assume q: "snd (set_cancel_tokens SetCancelTok (storage_tuple st)) = None"
      and i: "inner = TryValue v"
    from q err have "err = None" by simp
    from outcome(2) [OF this i] show "c = Inr (TryValue (async_closure_outer_coro_result rac v))" .
    from seen q i show "awaited_cleanups tr = map (cleanup_seeing None) cl"
      by simp
  next
    fix a k
    assume "cl = reversed_noexcept_cleanups st" "a \<in> set (storage_tuple st)"
      "k < cleanup_count (cleanup_hook a)" "cleanup_hook a \<noteq> co_cleanup_error_oblivious"
    then show "(arg_id a, k, Some ?first) \<in> set (awaited_cleanups tr)"
      by (rule hooks)
  qed
qed


lemmas run_simps =
  async_closure_outer_coro_def try_and_catch_set_cancel_tokens.simps
  async_closure_set_cancel_token_def has_exception_def await_cleanup_def
  reversed_noexcept_cleanups_def async_closure_make_cleanup_tuple_def
  co_yield_co_error_def co_error_def exception_def cleanup_seeing_def
  async_closure_outer_coro_result_def async_closure_default_inner_err_def
  OrderTracker_def HasCleanup_def ThrowingScope_def test_storage_def Let_def

lemma run_with_throwing_scope:
  "async_closure_outer_coro False True True None (TryValue (0::nat))
     (test_storage [HasCleanup 1, ThrowingScope 2, OrderTracker 3])
     (reversed_noexcept_cleanups (test_storage [HasCleanup 1, ThrowingScope 2, OrderTracker 3]))
   = (Inr (TryException (Some UsingUninitializedTry)),
      \<lparr>inner_err = Some bad_alloc,
       storage_tuple = [HasCleanup 1, ThrowingScope 2, OrderTracker 3]\<rparr>,
      [SetCancelToken 2,
       AwaitCleanup 3 0 None, AwaitCleanup 2 0 (Some (Some bad_alloc)),
       AwaitCleanup 1 0 (Some (Some bad_alloc)), Finish])"
  by (simp add: run_simps)

theorem cancel_token_failure_skips_inner_and_runs_cleanup_witness:
  "ThrowingScope 2 \<in> set (storage_tuple (test_storage [HasCleanup 1, ThrowingScope 2, OrderTracker 3]))
   \<and> snd (async_closure_set_cancel_token (ThrowingScope 2)) = Some bad_alloc
   \<and> AwaitInner \<notin> set [SetCancelToken 2,
                          AwaitCleanup 3 0 None, AwaitCleanup 2 0 (Some (Some bad_alloc)),
                          AwaitCleanup 1 0 (Some (Some bad_alloc)), Finish :: nat event]
   \<and> awaited_cleanups [SetCancelToken 2,
                          AwaitCleanup 3 0 None, AwaitCleanup 2 0 (Some (Some bad_alloc)),
                          AwaitCleanup 1 0 (Some (Some bad_alloc)), Finish :: nat event]
       = map (cleanup_seeing (Some bad_alloc))
           (reversed_noexcept_cleanups (test_storage [HasCleanup 1, ThrowingScope 2, OrderTracker 3]))"
proof -
  have thrower: "ThrowingScope 2
      \<in> set (storage_tuple (test_storage [HasCleanup 1, ThrowingScope 2, OrderTracker 3]))"
    by (simp add: test_storage_def)
  have throws: "snd (async_closure_set_cancel_token (ThrowingScope 2)) \<noteq> None"
    by (simp add: async_closure_set_cancel_token_def ThrowingScope_def)
  from cancel_token_failure_skips_inner_and_runs_cleanup
         [OF run_with_throwing_scope thrower throws]
  show ?thesis
    using thrower by (simp add: async_closure_set_cancel_token_def ThrowingScope_def)
qed

lemma run_with_MagicError:
  "async_closure_outer_coro False True True None (TryException (Some (UserError 111)) :: (unit, nat) Try)
     (test_storage [HasCleanup 1, OrderTracker 2])
     (reversed_noexcept_cleanups (test_storage [HasCleanup 1, OrderTracker 2]))
   = (Inr (TryException (Some (UserError 111))),
      \<lparr>inner_err = None, storage_tuple = [HasCleanup 1, OrderTracker 2]\<rparr>,
      [AwaitInner, AwaitCleanup 2 0 None, AwaitCleanup 1 0 (Some (Some (UserError 111))), Finish])"
  by (simp add: run_simps)

lemma run_after_success:
  "async_closure_outer_coro False True True None (TryValue () :: (unit, nat) Try)
     (test_storage [HasCleanup 1])
     (reversed_noexcept_cleanups (test_storage [HasCleanup 1]))
   = (Inr (TryValue ()),
      \<lparr>inner_err = None, storage_tuple = [HasCleanup 1]\<rparr>,
      [AwaitInner, AwaitCleanup 1 0 (Some None), Finish])"
  by (simp add: run_simps)

text \<open>
  The tests \<open>cleanupAfterError\<close> and \<open>cleanupAfterSuccess\<close> (AsyncClosureTest.cpp,
  lines 523-545): after \<open>MagicError{111}\<close> the cleanup records \<open>111\<close>, and the
  awaiter's error carries \<open>111\<close>; after success the cleanup records an empty wrapper.
\<close>

theorem cleanup_hooks_see_first_error_witness:
  "snd (set_cancel_tokens True (storage_tuple (test_storage [HasCleanup 1, OrderTracker 2]))) = None
   \<and> AwaitInner \<in> set [AwaitInner, AwaitCleanup 2 0 None,
                      AwaitCleanup 1 0 (Some (Some (UserError 111))), Finish :: nat event]
   \<and> awaited_cleanups [AwaitInner, AwaitCleanup 2 0 None,
                        AwaitCleanup 1 0 (Some (Some (UserError 111))), Finish :: nat event]
       = map (cleanup_seeing (Some (UserError 111)))
           (reversed_noexcept_cleanups (test_storage [HasCleanup 1, OrderTracker 2]))
   \<and> awaited_cleanups [AwaitInner, AwaitCleanup 2 0 None,
                        AwaitCleanup 1 0 (Some (Some (UserError 111))), Finish :: nat event]
       = [(2, 0, None), (1, 0, Some (Some (UserError 111)))]
   \<and> (1, 0, Some (Some (UserError 111)))
       \<in> set (awaited_cleanups [AwaitInner, AwaitCleanup 2 0 None,
                 AwaitCleanup 1 0 (Some (Some (UserError 111))), Finish :: nat event])
   \<and> snd (set_cancel_tokens True (storage_tuple (test_storage [HasCleanup 1]))) = None
   \<and> awaited_cleanups [AwaitInner, AwaitCleanup 1 0 (Some None), Finish :: nat event]
       = map (cleanup_seeing None) (reversed_noexcept_cleanups (test_storage [HasCleanup 1]))
   \<and> awaited_cleanups [AwaitInner, AwaitCleanup 1 0 (Some None), Finish :: nat event]
       = [(1, 0, Some None)]"
proof -
  have quiet: "snd (set_cancel_tokens True
      (storage_tuple (test_storage [HasCleanup 1, OrderTracker 2]))) = None"
    "snd (set_cancel_tokens True (storage_tuple (test_storage [HasCleanup 1]))) = None"
    by (simp_all add: set_cancel_tokens_def run_simps)
  from cleanup_hooks_see_first_error [OF run_with_MagicError, where E = "UserError 111"]
    cleanup_hooks_see_first_error [OF run_after_success, where v = "()"] quiet
  show ?thesis
    by (simp add: run_simps)
qed




section \<open>What \<open>bind_captures_to_closure\<close> builds\<close>

lemma those_all_Some:
  "(\<And>x. x \<in> set xs \<Longrightarrow> x \<noteq> None) \<Longrightarrow> \<exists>ys. those xs = Some ys"
  by (induction xs) (auto split: option.splits)

lemma bound_arg_exists:
  assumes "i < length b_tup"
    and "case sp of None \<Rightarrow> outer_stored_args b_tup = []
                  | Some st \<Rightarrow> storage_tuple st = outer_stored_args b_tup"
  shows "async_closure_bind_inner_coro_arg (StorageIs b_tup ! i) (b_tup ! i) sp \<noteq> None"
proof (cases "b_tup ! i")
  case (async_closure_outer_stored_arg a)
  from storage_index_correct [OF assms(1) this]
  have "StorageIs b_tup ! i < length (outer_stored_args b_tup)"
    by simp
  with assms(2) async_closure_outer_stored_arg show ?thesis
    by (cases sp) (auto simp: get_from_storage_ptr_def)
qed simp_all

lemma bound_args_exist:
  assumes "case sp of None \<Rightarrow> outer_stored_args b_tup = []
                | Some st \<Rightarrow> storage_tuple st = outer_stored_args b_tup"
  shows "\<exists>args. those (bind_inner_coro_args im b_tup sp) = Some args"
proof (rule those_all_Some)
  fix x
  assume "x \<in> set (bind_inner_coro_args im b_tup sp)"
  then obtain i where i: "i < length b_tup"
    and x: "x = map_option (\<lambda>a. if im \<and> i = 0 then deref a else a)
                  (async_closure_bind_inner_coro_arg (StorageIs b_tup ! i) (b_tup ! i) sp)"
    by (auto simp: bind_inner_coro_args_def in_set_conv_nth StorageIs_length)
  from bound_arg_exists [OF i assms] x show "x \<noteq> None"
    by simp
qed

lemma make_cleanup_tasks_Some:
  "make_cleanup_tasks heap ts = (Some heap', evs) \<Longrightarrow>
   evs = map (\<lambda>t. MakeCleanupTask (owner t) (part t)) ts \<and> heap = heap' + length ts"
proof (induction ts arbitrary: heap evs)
  case Nil
  then show ?case by simp
next
  case (Cons t ts)
  then show ?case
    by (cases heap) (auto split: prod.splits)
qed

lemma make_cleanup_tasks_enough:
  "length ts \<le> heap \<Longrightarrow>
   make_cleanup_tasks heap ts
     = (Some (heap - length ts), map (\<lambda>t. MakeCleanupTask (owner t) (part t)) ts)"
proof (induction ts arbitrary: heap)
  case Nil
  then show ?case by simp
next
  case (Cons t ts)
  then show ?case
    by (cases heap) auto
qed

lemma make_cleanup_tasks_events:
  "make_cleanup_tasks heap ts = (r, evs) \<Longrightarrow> ev \<in> set evs \<Longrightarrow> \<exists>a k. ev = MakeCleanupTask a k"
proof (induction ts arbitrary: heap evs r)
  case Nil
  then show ?case by simp
next
  case (Cons t ts)
  then show ?case
    by (cases heap) (auto split: prod.splits)
qed

lemma make_outer_coro_Some:
  assumes "async_closure_make_outer_coro cmas heap T rac OS inner st = (Some t, evs)"
  shows "t = \<lparr>task_type = (if OS \<ge> cmas then SafeTask OS else NowTask),
              coro = outer_coro T rac inner st (reversed_noexcept_cleanups st)\<rparr>
       \<and> evs = map (\<lambda>t. MakeCleanupTask (owner t) (part t)) (reversed_noexcept_cleanups st)
               @ [MakeOuterCoro]"
proof -
  obtain r evs' where made: "make_cleanup_tasks heap (reversed_noexcept_cleanups st) = (r, evs' :: 'b event list)"
    by (cases "make_cleanup_tasks heap (reversed_noexcept_cleanups st) :: nat option \<times> 'b event list")
  with assms obtain heap' where r: "r = Some heap'"
    by (cases r) (auto simp: async_closure_make_outer_coro_def Let_def)
  from made r have "evs' = map (\<lambda>t. MakeCleanupTask (owner t) (part t)) (reversed_noexcept_cleanups st)"
    using make_cleanup_tasks_Some by blast
  with assms made r show ?thesis
    by (auto simp: async_closure_make_outer_coro_def Let_def split: option.splits)
qed

lemma make_outer_coro_None:
  assumes "async_closure_make_outer_coro cmas heap T rac OS inner st = (None, evs)"
    and "ev \<in> set evs"
  shows "\<exists>a k. ev = MakeCleanupTask a k"
proof -
  obtain r evs' where made: "make_cleanup_tasks heap (reversed_noexcept_cleanups st) = (r, evs' :: 'b event list)"
    by (cases "make_cleanup_tasks heap (reversed_noexcept_cleanups st) :: nat option \<times> 'b event list")
  with assms(1) have "evs = evs'"
    by (auto simp: async_closure_make_outer_coro_def Let_def split: option.splits)
  with made assms(2) show ?thesis
    using make_cleanup_tasks_events by blast
qed

lemma make_outer_coro_enough:
  assumes "length (reversed_noexcept_cleanups st) < heap"
  shows "\<exists>t evs. async_closure_make_outer_coro cmas heap T rac OS inner st = (Some t, evs)"
proof -
  from assms obtain h where "allocate (heap - length (reversed_noexcept_cleanups st)) = Some h"
    by (cases "heap - length (reversed_noexcept_cleanups st)") auto
  with assms show ?thesis
    by (simp add: async_closure_make_outer_coro_def Let_def make_cleanup_tasks_enough)
qed

lemma trace_of_constructs:
  "constructed (map (\<lambda>a. Construct (arg_id a)) xs) = map arg_id xs"
  "destroyed (map (\<lambda>a. Construct (arg_id a)) xs) = []"
  "awaited_cleanups (map (\<lambda>a. Construct (arg_id a)) xs) = []"
  "made_cleanups (map (\<lambda>a. Construct (arg_id a)) xs) = []"
  by (induction xs) simp_all

lemma trace_of_destroys:
  "destroyed (map (\<lambda>a. Destroy (arg_id a)) xs) = map arg_id xs"
  "constructed (map (\<lambda>a. Destroy (arg_id a)) xs) = []"
  "awaited_cleanups (map (\<lambda>a. Destroy (arg_id a)) xs) = []"
  "made_cleanups (map (\<lambda>a. Destroy (arg_id a)) xs) = []"
  by (induction xs) simp_all

lemma trace_of_makes:
  "made_cleanups (map (\<lambda>t. MakeCleanupTask (owner t) (part t)) ts) = map (\<lambda>t. (owner t, part t)) ts"
  "constructed (map (\<lambda>t. MakeCleanupTask (owner t) (part t)) ts) = []"
  "destroyed (map (\<lambda>t. MakeCleanupTask (owner t) (part t)) ts) = []"
  "awaited_cleanups (map (\<lambda>t. MakeCleanupTask (owner t) (part t)) ts) = []"
  by (induction ts) simp_all

lemma trace_of_awaits:
  "made_cleanups (map (await_cleanup st) ts) = []"
  "constructed (map (await_cleanup st) ts) = []"
  "destroyed (map (await_cleanup st) ts) = []"
  by (induction ts) (simp_all add: await_cleanup_def)

lemma the_task_finish:
  "the_task (if fsc then now_task (toNowTask t)
             else wrap_coro \<lparr>OuterSafety = os, InnerSafety = is, outer_mover = t\<rparr>) = Some t'
   \<Longrightarrow> coro t' = coro t
       \<and> task_type t' = (if fsc then NowTask else task_type t)
       \<and> (if fsc then now_task (toNowTask t)
           else wrap_coro \<lparr>OuterSafety = os, InnerSafety = is, outer_mover = t\<rparr>)
          = (if fsc then now_task t'
             else wrap_coro \<lparr>OuterSafety = os, InnerSafety = is, outer_mover = t'\<rparr>)"
  by (auto simp: toNowTask_def split: if_splits)

lemma bind_built:
  assumes bind: "bind_captures_to_closure D cmas Cfg traits heap mk (safeties, b_tup) = (cl, evs)"
    and built: "the_task cl = Some t"
  shows "\<exists>args.
     (if outer_stored_args b_tup = []
      then coro t = inner_coro (mk args) \<and> evs = [MakeInnerCoro]
           \<and> result_after_cleanup traits = None
      else coro t = outer_coro True (result_after_cleanup traits) (mk args) (storage_of D b_tup)
                      (reversed_noexcept_cleanups (storage_of D b_tup))
           \<and> evs = map (\<lambda>a. Construct (arg_id a)) (outer_stored_args b_tup) @ [MakeInnerCoro]
                   @ map (\<lambda>t. MakeCleanupTask (owner t) (part t))
                       (reversed_noexcept_cleanups (storage_of D b_tup))
                   @ [MakeOuterCoro])"
    and "cl = (if force_shared_cleanup Cfg then now_task t
               else wrap_coro \<lparr>OuterSafety = least_safe_alias safeties,
                               InnerSafety = arg_safety traits, outer_mover = t\<rparr>)"
    and "task_type t =
           (if force_shared_cleanup Cfg then NowTask
            else if outer_stored_args b_tup = []
            then (if arg_safety traits \<ge> unsafe_closure_internal
                  then SafeTask (max (least_safe_alias safeties) cmas) else raw_type traits)
            else (if least_safe_alias safeties \<ge> cmas
                  then SafeTask (least_safe_alias safeties) else NowTask))"
    and "static_asserts Cfg traits b_tup = None"
proof -
  let ?sas = "outer_stored_args b_tup"
  let ?sp = "if ?sas = [] then None else Some (storage_of D b_tup)"
  let ?A = "\<lambda>args. (if outer_stored_args b_tup = []
      then coro t = inner_coro (mk args) \<and> evs = [MakeInnerCoro]
           \<and> result_after_cleanup traits = None
      else coro t = outer_coro True (result_after_cleanup traits) (mk args) (storage_of D b_tup)
                      (reversed_noexcept_cleanups (storage_of D b_tup))
           \<and> evs = map (\<lambda>a. Construct (arg_id a)) (outer_stored_args b_tup) @ [MakeInnerCoro]
                   @ map (\<lambda>t. MakeCleanupTask (owner t) (part t))
                       (reversed_noexcept_cleanups (storage_of D b_tup))
                   @ [MakeOuterCoro])"
  let ?B = "cl = (if force_shared_cleanup Cfg then now_task t
               else wrap_coro \<lparr>OuterSafety = least_safe_alias safeties,
                               InnerSafety = arg_safety traits, outer_mover = t\<rparr>)"
  let ?C = "task_type t =
           (if force_shared_cleanup Cfg then NowTask
            else if outer_stored_args b_tup = []
            then (if arg_safety traits \<ge> unsafe_closure_internal
                  then SafeTask (max (least_safe_alias safeties) cmas) else raw_type traits)
            else (if least_safe_alias safeties \<ge> cmas
                  then SafeTask (least_safe_alias safeties) else NowTask))"
  have "case ?sp of None \<Rightarrow> ?sas = [] | Some st \<Rightarrow> storage_tuple st = ?sas"
    by (simp add: storage_of_def)
  from bound_args_exist [OF this] obtain args where args:
    "those (bind_inner_coro_args (is_invoke_member Cfg) b_tup ?sp) = Some args"
    by blast
  from bind built show sa: "static_asserts Cfg traits b_tup = None"
    by (cases "static_asserts Cfg traits b_tup")
       (auto simp: bind_captures_to_closure_def Let_def)
  have "?A args \<and> ?B \<and> ?C"
  proof (cases "?sas = []")
    case True
    then have ms: "make_storage D heap ?sas = Some (heap, None, [])"
      by (simp add: make_storage_def)
    from sa True have rac: "result_after_cleanup traits = None"
      by (auto simp: static_asserts_def split: if_splits)
    from bind built sa ms args True obtain heap2 where "allocate heap = Some heap2"
      by (cases "allocate heap") (auto simp: bind_captures_to_closure_def Let_def)
    with bind built sa ms args True rac show ?thesis
      by (auto simp: bind_captures_to_closure_def Let_def dest!: the_task_finish)
  next
    case False
    from bind built sa False obtain heap1 where h1: "allocate heap = Some heap1"
      by (cases "allocate heap") (auto simp: bind_captures_to_closure_def Let_def make_storage_def)
    with False have ms: "make_storage D heap ?sas
        = Some (heap1, Some (storage_of D b_tup), map (\<lambda>a. Construct (arg_id a)) ?sas)"
      by (simp add: make_storage_def storage_of_def)
    from bind built sa ms args False obtain heap2 where h2: "allocate heap1 = Some heap2"
      by (cases "allocate heap1") (auto simp: bind_captures_to_closure_def Let_def)
    obtain r evs3 where mk: "async_closure_make_outer_coro cmas heap2 True
        (result_after_cleanup traits)
        (if force_shared_cleanup Cfg then unsafe else least_safe_alias safeties)
        (mk args) (storage_of D b_tup) = (r, evs3)"
      by (cases "async_closure_make_outer_coro cmas heap2 True (result_after_cleanup traits)
        (if force_shared_cleanup Cfg then unsafe else least_safe_alias safeties)
        (mk args) (storage_of D b_tup)")
    from bind built sa ms args False h2 mk obtain t0 where r: "r = Some t0"
      by (cases r) (auto simp: bind_captures_to_closure_def Let_def)
    note made = make_outer_coro_Some [OF mk [unfolded r]]
    from bind built sa ms args False h2 mk r made show ?thesis
      by (auto simp: bind_captures_to_closure_def Let_def dest!: the_task_finish)
  qed
  then show "\<exists>args. ?A args" and ?B and ?C
    by blast+
qed

lemma bind_not_built:
  assumes bind: "bind_captures_to_closure D cmas Cfg traits heap mk (safeties, b_tup) = (cl, evs)"
    and failed: "the_task cl = None"
  shows "AwaitInner \<notin> set evs" and "awaited_cleanups evs = []"
    and "(\<exists>f. cl = ill_formed f \<and> evs = []) \<or> cl = thrown bad_alloc"
    and "destroyed evs = rev (constructed evs)"
proof -
  let ?sas = "outer_stored_args b_tup"
  let ?sp = "if ?sas = [] then None else Some (storage_of D b_tup)"
  let ?goal = "AwaitInner \<notin> set evs \<and> awaited_cleanups evs = []
     \<and> ((\<exists>f. cl = ill_formed f \<and> evs = []) \<or> cl = thrown bad_alloc)
     \<and> destroyed evs = rev (constructed evs)"
  have "case ?sp of None \<Rightarrow> ?sas = [] | Some st \<Rightarrow> storage_tuple st = ?sas"
    by (simp add: storage_of_def)
  from bound_args_exist [OF this] obtain args where args:
    "those (bind_inner_coro_args (is_invoke_member Cfg) b_tup ?sp) = Some args"
    by blast
  have des: "destroyed (destroy_storage (storage_of D b_tup)) = rev (map arg_id ?sas)"
    "constructed (destroy_storage (storage_of D b_tup)) = []"
    "awaited_cleanups (destroy_storage (storage_of D b_tup)) = []"
    "AwaitInner \<notin> set (destroy_storage (storage_of D b_tup))"
    by (auto simp: destroy_storage_def storage_of_def rev_map trace_of_destroys)
  have ?goal
  proof (cases "static_asserts Cfg traits b_tup")
    case (Some f)
    with bind show ?thesis
      by (auto simp: bind_captures_to_closure_def Let_def)
  next
    case sa: None
    show ?thesis
    proof (cases "?sas = []")
      case True
      then have ms: "make_storage D heap ?sas = Some (heap, None, [])"
        by (simp add: make_storage_def)
      from bind failed sa ms args True show ?thesis
        by (cases "allocate heap")
           (auto simp: bind_captures_to_closure_def Let_def split: if_splits)
    next
      case False
      show ?thesis
      proof (cases "allocate heap")
        case None
        with bind sa False show ?thesis
          by (auto simp: bind_captures_to_closure_def Let_def make_storage_def)
      next
        case (Some heap1)
        with False have ms: "make_storage D heap ?sas
            = Some (heap1, Some (storage_of D b_tup), map (\<lambda>a. Construct (arg_id a)) ?sas)"
          by (simp add: make_storage_def storage_of_def)
        show ?thesis
        proof (cases "allocate heap1")
          case None
          with bind sa ms args False des show ?thesis
            by (auto simp: bind_captures_to_closure_def Let_def trace_of_constructs
                  destroyed_append constructed_append awaited_cleanups_append)
        next
          case h2: (Some heap2)
          obtain r evs3 where mk: "async_closure_make_outer_coro cmas heap2 True
              (result_after_cleanup traits)
              (if force_shared_cleanup Cfg then unsafe else least_safe_alias safeties)
              (mk args) (storage_of D b_tup) = (r, evs3)"
            by (cases "async_closure_make_outer_coro cmas heap2 True (result_after_cleanup traits)
              (if force_shared_cleanup Cfg then unsafe else least_safe_alias safeties)
              (mk args) (storage_of D b_tup)")
          from bind failed sa ms args False h2 mk have r: "r = None"
            by (cases r) (auto simp: bind_captures_to_closure_def Let_def split: if_splits)
          from make_outer_coro_None [OF mk [unfolded r]]
          have only: "\<And>ev. ev \<in> set evs3 \<Longrightarrow> \<exists>a k. ev = MakeCleanupTask a k" .
          then have evs3: "AwaitInner \<notin> set evs3 \<and> awaited_cleanups evs3 = []
              \<and> destroyed evs3 = [] \<and> constructed evs3 = []"
          proof (induction evs3)
            case Nil
            then show ?case by simp
          next
            case (Cons ev evs3)
            from Cons.prems [of ev] obtain a k where "ev = MakeCleanupTask a k" by auto
            with Cons show ?case by auto
          qed
          from bind sa ms args False h2 mk r des evs3 show ?thesis
            by (auto simp: bind_captures_to_closure_def Let_def trace_of_constructs
                  destroyed_append constructed_append awaited_cleanups_append)
        qed
      qed
    qed
  qed
  then show "AwaitInner \<notin> set evs" and "awaited_cleanups evs = []"
    and "(\<exists>f. cl = ill_formed f \<and> evs = []) \<or> cl = thrown bad_alloc"
    and "destroyed evs = rev (constructed evs)"
    by blast+
qed

lemma bind_enough_heap:
  assumes sa: "static_asserts Cfg traits b_tup = None"
    and heap: "2 + length (reversed_noexcept_cleanups (storage_of D b_tup)) < heap"
  shows "\<exists>t. the_task (fst (bind_captures_to_closure D cmas Cfg traits heap mk (safeties, b_tup)))
               = Some t"
proof -
  let ?sas = "outer_stored_args b_tup"
  let ?sp = "if ?sas = [] then None else Some (storage_of D b_tup)"
  have "case ?sp of None \<Rightarrow> ?sas = [] | Some st \<Rightarrow> storage_tuple st = ?sas"
    by (simp add: storage_of_def)
  from bound_args_exist [OF this] obtain args where args:
    "those (bind_inner_coro_args (is_invoke_member Cfg) b_tup ?sp) = Some args"
    by blast
  from heap obtain heap1 where h1: "heap = Suc heap1"
    by (cases heap) auto
  with heap obtain heap2 where h2: "heap1 = Suc heap2"
    by (cases heap1) auto
  show ?thesis
  proof (cases "?sas = []")
    case True
    then have ms: "make_storage D heap ?sas = Some (heap, None, [])"
      by (simp add: make_storage_def)
    with sa args True h1 show ?thesis
      by (auto simp: bind_captures_to_closure_def Let_def)
  next
    case False
    with h1 have ms: "make_storage D heap ?sas
        = Some (heap1, Some (storage_of D b_tup), map (\<lambda>a. Construct (arg_id a)) ?sas)"
      by (simp add: make_storage_def storage_of_def)
    from heap h1 h2 have "length (reversed_noexcept_cleanups (storage_of D b_tup)) < heap2"
      by simp
    from make_outer_coro_enough [OF this]
    obtain t0 evs3 where "async_closure_make_outer_coro cmas heap2 True
        (result_after_cleanup traits)
        (if force_shared_cleanup Cfg then unsafe else least_safe_alias safeties)
        (mk args) (storage_of D b_tup) = (Some t0, evs3)"
      by blast
    with sa ms args False h2 show ?thesis
      by (auto simp: bind_captures_to_closure_def Let_def)
  qed
qed

lemma bind_enough_heap_hooks:
  assumes bind: "bind_captures_to_closure D cmas Cfg traits heap mk (safeties, b_tup) = (cl, evs)"
    and sa: "static_asserts Cfg traits b_tup = None"
    and heap: "2 + sum_list (map (\<lambda>a. cleanup_count (cleanup_hook a)) (outer_stored_args b_tup))
                 < heap"
  shows "\<exists>t. the_task cl = Some t"
proof -
  from heap have "2 + length (reversed_noexcept_cleanups (storage_of D b_tup)) < heap"
    by (simp add: length_reversed_cleanups storage_of_def)
  from bind_enough_heap [OF sa this, of cmas mk safeties] bind show ?thesis
    by simp
qed

section \<open>Awaiting a built closure\<close>

lemma outer_coro_trace:
  assumes fresh: "T \<or> inner_err st = async_closure_default_inner_err D"
    and run: "async_closure_outer_coro N D T rac inner st cl = (c, st', tr)"
  obtains pre s where
    "tr = pre @ map (await_cleanup s) cl @ (case c of Inl _ \<Rightarrow> [] | Inr _ \<Rightarrow> [Finish])"
    and "awaited_cleanups pre = []" and "made_cleanups pre = []" and "constructed pre = []"
    and "destroyed pre = []" and "Finish \<notin> set pre"
    and "AwaitInner \<in> set pre \<longleftrightarrow> snd (set_cancel_tokens T (storage_tuple st)) = None"
    and "storage_tuple st' = storage_tuple st"
proof -
  obtain evs err where tok: "set_cancel_tokens T (storage_tuple st) = (evs, err)"
    by (cases "set_cancel_tokens T (storage_tuple st)")
  note silent = set_cancel_tokens_silent [OF tok]
  show ?thesis
  proof (cases err)
    case (Some x)
    with tok have tokx: "set_cancel_tokens T (storage_tuple st) = (evs, Some x)"
      by simp
    from run [unfolded outer_coro_token_failure [OF tokx]]
    have c: "c = Inr (TryException (Some UsingUninitializedTry))"
      and tr: "tr = evs @ map (await_cleanup (st\<lparr>inner_err := Some x\<rparr>)) cl @ [Finish]"
      and st': "st' = st\<lparr>inner_err := Some x\<rparr>"
      by auto
    from tr c have 1: "tr = evs @ map (await_cleanup (st\<lparr>inner_err := Some x\<rparr>)) cl
        @ (case c of Inl _ \<Rightarrow> [] | Inr _ \<Rightarrow> [Finish])"
      by simp
    from silent(5) tokx
    have 2: "AwaitInner \<in> set evs \<longleftrightarrow> snd (set_cancel_tokens T (storage_tuple st)) = None"
      by simp
    from st' have 3: "storage_tuple st' = storage_tuple st"
      by simp
    show ?thesis
      by (rule that [OF 1 silent(1) silent(2) silent(3) silent(4) silent(6) 2 3])
  next
    case None
    with tok have tok': "set_cancel_tokens T (storage_tuple st) = (evs, None)"
      by simp
    note closed = outer_coro_inner_awaited [OF fresh tok', of N rac inner cl]
    have pre: "awaited_cleanups (evs @ [AwaitInner]) = []" "made_cleanups (evs @ [AwaitInner]) = []"
      "constructed (evs @ [AwaitInner]) = []" "destroyed (evs @ [AwaitInner]) = []"
      "Finish \<notin> set (evs @ [AwaitInner])"
      using silent by (simp_all add: awaited_cleanups_append made_cleanups_append
            constructed_append destroyed_append)
    from tok' have 2: "AwaitInner \<in> set (evs @ [AwaitInner])
        \<longleftrightarrow> snd (set_cancel_tokens T (storage_tuple st)) = None"
      by simp
    have "\<exists>s. tr = (evs @ [AwaitInner]) @ map (await_cleanup s) cl
                 @ (case c of Inl _ \<Rightarrow> [] | Inr _ \<Rightarrow> [Finish])
             \<and> storage_tuple st' = storage_tuple st"
    proof (cases inner)
      case (TryValue v)
      from run closed have "(c, st', tr) =
          (Inr (TryValue (async_closure_outer_coro_result rac v)), st\<lparr>inner_err := None\<rparr>,
           evs @ [AwaitInner] @ map (await_cleanup (st\<lparr>inner_err := None\<rparr>)) cl @ [Finish])"
        by (simp add: TryValue)
      then show ?thesis
        by (intro exI [of _ "st\<lparr>inner_err := None\<rparr>"]) simp
    next
      case (TryException ew)
      from run closed have "(c, st', tr) =
          (co_yield_co_error N ew, st\<lparr>inner_err := None\<rparr>,
           evs @ [AwaitInner] @ map (await_cleanup (st\<lparr>inner_err := ew\<rparr>)) cl
             @ (case c of Inl _ \<Rightarrow> [] | Inr _ \<Rightarrow> [Finish]))"
        by (auto simp: TryException)
      then show ?thesis
        by (intro exI [of _ "st\<lparr>inner_err := ew\<rparr>"]) simp
    next
      case TryNothing
      from run closed have "(c, st', tr) =
          (Inr (TryException (Some UsingUninitializedTry)), st\<lparr>inner_err := None\<rparr>,
           evs @ [AwaitInner] @ map (await_cleanup (st\<lparr>inner_err := None\<rparr>)) cl @ [Finish])"
        by (simp add: TryNothing)
      then show ?thesis
        by (intro exI [of _ "st\<lparr>inner_err := None\<rparr>"]) simp
    qed
    then obtain s where 1: "tr = (evs @ [AwaitInner]) @ map (await_cleanup s) cl
                 @ (case c of Inl _ \<Rightarrow> [] | Inr _ \<Rightarrow> [Finish])"
      and 3: "storage_tuple st' = storage_tuple st"
      by (elim exE conjE)
    show ?thesis
      by (rule that [OF 1 pre(1) pre(2) pre(3) pre(4) pre(5) 2 3])
  qed
qed

lemma no_Destroy: "destroyed xs = [] \<Longrightarrow> e \<in> set xs \<Longrightarrow> \<not> is_Destroy e"
  by (induction xs rule: destroyed.induct) auto

lemma no_AwaitCleanup: "awaited_cleanups xs = [] \<Longrightarrow> e \<in> set xs \<Longrightarrow> \<not> is_AwaitCleanup e"
  by (induction xs rule: awaited_cleanups.induct) auto

lemma cleanups_before_destructors:
  assumes "destroyed xs = []" and "awaited_cleanups ys = []"
    and "i < length (xs @ ys)" and "j < length (xs @ ys)"
    and "is_Destroy ((xs @ ys) ! i)" and "is_AwaitCleanup ((xs @ ys) ! j)"
  shows "j < i"
proof -
  have "\<not> i < length xs"
  proof
    assume "i < length xs"
    with assms(5) have "is_Destroy (xs ! i)" and "xs ! i \<in> set xs"
      by (simp_all add: nth_append)
    with assms(1) show False
      using no_Destroy by blast
  qed
  moreover have "j < length xs"
  proof (rule ccontr)
    assume "\<not> j < length xs"
    with assms(4,6) have "is_AwaitCleanup (ys ! (j - length xs))" and "ys ! (j - length xs) \<in> set ys"
      by (simp_all add: nth_append)
    with assms(2) show False
      using no_AwaitCleanup by blast
  qed
  ultimately show ?thesis by simp
qed

lemma awaited_tasks: "map (\<lambda>(a, k, seen). (a, k)) (map (cleanup_seeing err) cl)
    = map (\<lambda>t. (owner t, part t)) cl"
  by (simp add: cleanup_seeing_def comp_def)


lemma await_outer:
  assumes coro: "coro t = outer_coro T rac inner st cl"
    and fresh: "T \<or> inner_err st = async_closure_default_inner_err D"
    and await: "co_awaitTry N D t = (c, tr)"
  obtains pre s where
    "tr = (pre @ map (await_cleanup s) cl @ (case c of Inl _ \<Rightarrow> [] | Inr _ \<Rightarrow> [Finish]))
          @ (case c of Inl _ \<Rightarrow> [] | Inr _ \<Rightarrow> map (\<lambda>a. Destroy (arg_id a)) (rev (storage_tuple st)))"
    and "awaited_cleanups pre = []" and "made_cleanups pre = []" and "constructed pre = []"
    and "destroyed pre = []" and "Finish \<notin> set pre"
    and "AwaitInner \<in> set pre \<longleftrightarrow> snd (set_cancel_tokens T (storage_tuple st)) = None"
proof -
  obtain c0 st' tr0 where run: "async_closure_outer_coro N D T rac inner st cl = (c0, st', tr0)"
    by (cases "async_closure_outer_coro N D T rac inner st cl")
  from await coro run have c: "c = c0"
    and tr: "tr = tr0 @ (case c of Inl _ \<Rightarrow> [] | Inr _ \<Rightarrow> destroy_storage st')"
    by (auto simp: co_awaitTry_def split: sum.splits)
  from outer_coro_trace [OF fresh run] obtain pre s where
    tr0: "tr0 = pre @ map (await_cleanup s) cl @ (case c0 of Inl _ \<Rightarrow> [] | Inr _ \<Rightarrow> [Finish])"
    and pre: "awaited_cleanups pre = []" "made_cleanups pre = []" "constructed pre = []"
      "destroyed pre = []" "Finish \<notin> set pre"
      "AwaitInner \<in> set pre \<longleftrightarrow> snd (set_cancel_tokens T (storage_tuple st)) = None"
    and same: "storage_tuple st' = storage_tuple st"
    by blast
  from tr tr0 c same
  have 1: "tr = (pre @ map (await_cleanup s) cl @ (case c of Inl _ \<Rightarrow> [] | Inr _ \<Rightarrow> [Finish]))
          @ (case c of Inl _ \<Rightarrow> [] | Inr _ \<Rightarrow> map (\<lambda>a. Destroy (arg_id a)) (rev (storage_tuple st)))"
    by (cases c0) (simp_all add: destroy_storage_def)
  show ?thesis
    by (rule that [OF 1 pre(1) pre(2) pre(3) pre(4) pre(5) pre(6)])
qed

section \<open>The wrappers of Result.h\<close>

text \<open>
  C9, as the code has it. Where \<open>assert\<close> is evaluated (\<open>NDEBUG\<close> not defined),
  a \<open>co_error\<close> whose construction returns holds a non-empty
  \<open>exception_wrapper\<close>, and a \<open>co_result\<close> whose construction returns holds a
  \<open>Try\<close> that, if it has an exception, has a non-empty one. In every build the object
  holds what it was given; with \<open>NDEBUG\<close> defined the constructors check nothing
  and always return. The conversion of \<open>co_cancelled\<close> gives a \<open>co_error\<close>
  holding \<open>OperationCancelled\<close> in every build.
\<close>

theorem co_error_nonempty_when_asserted:
  "(co_error False (a :: 'e exception_wrapper) = Inr e \<longrightarrow> has_exception (exception e))
   \<and> (co_result False r = Inr c \<longrightarrow> hasException (result c) \<longrightarrow>
        has_exception (try_exception (result c)))
   \<and> (co_error NDEBUG a = Inr e \<longrightarrow> exception e = a)
   \<and> (co_result NDEBUG r = Inr c \<longrightarrow> result c = r)
   \<and> co_error True a = Inr \<lparr>ex = a\<rparr>
   \<and> co_result True r = Inr \<lparr>res = r\<rparr>
   \<and> (co_cancelled NDEBUG :: fault + 'e co_error_obj) = Inr \<lparr>ex = Some OperationCancelled\<rparr>"
  by (auto simp: co_error_def co_result_def co_cancelled_def exception_def result_def
        has_exception_def Let_def split: if_splits)

theorem co_error_nonempty_when_asserted_witness:
  "co_error False (Some (UserError (111::nat))) = Inr \<lparr>ex = Some (UserError 111)\<rparr>
   \<and> has_exception (exception \<lparr>ex = Some (UserError (111::nat))\<rparr>)
   \<and> co_result False (TryException (Some OperationCancelled) :: (unit, nat) Try)
       = Inr \<lparr>res = TryException (Some OperationCancelled)\<rparr>
   \<and> has_exception (try_exception (result \<lparr>res = TryException (Some OperationCancelled)
         :: (unit, nat) Try\<rparr>))"
proof -
  have built: "co_error False (Some (UserError (111::nat))) = Inr \<lparr>ex = Some (UserError 111)\<rparr>"
    by (simp add: co_error_def has_exception_def)
  have built': "co_result False (TryException (Some OperationCancelled) :: (unit, nat) Try)
       = Inr \<lparr>res = TryException (Some OperationCancelled)\<rparr>"
    by (simp add: co_result_def has_exception_def)
  from co_error_nonempty_when_asserted
    [where a = "Some (UserError (111::nat))" and e = "\<lparr>ex = Some (UserError 111)\<rparr>"
       and r = "TryException (Some OperationCancelled) :: (unit, nat) Try"
       and c = "\<lparr>res = TryException (Some OperationCancelled)\<rparr>"
       and NDEBUG = False]
    built built'
  show ?thesis
    by (simp add: result_def exception_def)
qed

text \<open>
  With \<open>NDEBUG\<close> defined, \<open>co_error(exception_wrapper{})\<close> is accepted and holds
  an empty error, and \<open>co_result\<close> accepts a \<open>Try\<close> in the exception state whose
  exception is empty.
\<close>

theorem co_error_holds_empty_error_counterexample:
  "co_error True (None :: unit exception_wrapper) = Inr \<lparr>ex = None\<rparr>
   \<and> \<not> has_exception (exception \<lparr>ex = (None :: unit exception_wrapper)\<rparr>)
   \<and> co_result True (TryException None :: (unit, unit) Try) = Inr \<lparr>res = TryException None\<rparr>
   \<and> hasException (result \<lparr>res = (TryException None :: (unit, unit) Try)\<rparr>)
   \<and> \<not> has_exception (try_exception (result \<lparr>res = (TryException None :: (unit, unit) Try)\<rparr>))"
  by (simp add: co_error_def co_result_def exception_def result_def has_exception_def)

section \<open>The join of safety levels\<close>

lemma least_safe_alias_Cons: "least_safe_alias (a # levels) = min a (least_safe_alias levels)"
  by (simp add: least_safe_alias_def)

lemma value_level_greatest: "a \<le> value_level"
  by (cases a) (simp_all add: less_eq_safe_alias_def)

text \<open>
  C3. The join of a non-empty sequence of levels is its least element in the order of the
  levels; the join of no level is the greatest level, \<open>value_level\<close>, which every
  level is below and which joined to a sequence, in front or behind, changes nothing.
\<close>

theorem least_safe_alias_is_minimum:
  "(levels \<noteq> [] \<longrightarrow> least_safe_alias levels = Min (set levels))
   \<and> least_safe_alias [] = value_level
   \<and> (\<forall>a. a \<le> value_level)
   \<and> least_safe_alias (value_level # levels) = least_safe_alias levels
   \<and> least_safe_alias (levels @ [value_level]) = least_safe_alias levels"
proof (intro conjI impI allI)
  assume "levels \<noteq> []"
  then show "least_safe_alias levels = Min (set levels)"
  proof (induction levels)
    case Nil
    then show ?case by simp
  next
    case (Cons a levels)
    show ?case
    proof (cases "levels = []")
      case True
      then show ?thesis
        by (simp add: least_safe_alias_def min_def value_level_greatest)
    next
      case False
      with Cons.IH show ?thesis
        by (simp add: least_safe_alias_Cons)
    qed
  qed
next
  show "least_safe_alias [] = value_level"
    by (simp add: least_safe_alias_def)
next
  fix a show "a \<le> value_level"
    by (rule value_level_greatest)
next
  show "least_safe_alias (value_level # levels) = least_safe_alias levels"
    by (simp add: least_safe_alias_Cons min_def value_level_greatest antisym)
next
  show "least_safe_alias (levels @ [value_level]) = least_safe_alias levels"
    by (simp add: least_safe_alias_def min_def value_level_greatest)
qed

text \<open>
  The levels of the test \<open>checkSafety\<close> (AsyncClosureTest.cpp, lines 93-119), joined.
\<close>

theorem least_safe_alias_is_minimum_witness:
  "[maybe_value, co_cleanup_safe_ref, after_cleanup_ref] \<noteq> []
   \<and> least_safe_alias [maybe_value, co_cleanup_safe_ref, after_cleanup_ref] = co_cleanup_safe_ref
   \<and> Min (set [maybe_value, co_cleanup_safe_ref, after_cleanup_ref]) = co_cleanup_safe_ref"
proof -
  have "least_safe_alias [maybe_value, co_cleanup_safe_ref, after_cleanup_ref] = co_cleanup_safe_ref"
    by (simp add: least_safe_alias_def min_def less_eq_safe_alias_def)
  with least_safe_alias_is_minimum [of "[maybe_value, co_cleanup_safe_ref, after_cleanup_ref]"]
  show ?thesis
    by simp
qed


section \<open>Order of construction, cleanup and destruction\<close>

lemma await_inner:
  "coro t = inner_coro r \<Longrightarrow> co_awaitTry N D t = (Inr r, [AwaitInner])"
  by (simp add: co_awaitTry_def)

lemma Finish_trace:
  "awaited_cleanups (case c of Inl x \<Rightarrow> [] | Inr y \<Rightarrow> [Finish]) = []"
  "made_cleanups (case c of Inl x \<Rightarrow> [] | Inr y \<Rightarrow> [Finish]) = []"
  "constructed (case c of Inl x \<Rightarrow> [] | Inr y \<Rightarrow> [Finish]) = []"
  "destroyed (case c of Inl x \<Rightarrow> [] | Inr y \<Rightarrow> [Finish]) = []"
  by (cases c; simp)+

lemma Destroy_trace:
  "awaited_cleanups (case c of Inl x \<Rightarrow> [] | Inr y \<Rightarrow> map (\<lambda>a. Destroy (arg_id a)) xs) = []"
  "made_cleanups (case c of Inl x \<Rightarrow> [] | Inr y \<Rightarrow> map (\<lambda>a. Destroy (arg_id a)) xs) = []"
  "constructed (case c of Inl x \<Rightarrow> [] | Inr y \<Rightarrow> map (\<lambda>a. Destroy (arg_id a)) xs) = []"
  by (cases c; simp add: trace_of_destroys)+

text \<open>
  C1. For what \<open>bind_captures_to_closure\<close> builds, whatever the bindings, the heap
  and the outcome of the inner computation. When the \<open>static_assert\<close>s hold and the
  heap suffices for the storage, the two coroutine frames and one cleanup task for each
  cleanup coroutine of the hooks, the closure is built. And when a built closure is
  awaited: the stored arguments have been constructed in the order of the bindings; the
  cleanup tasks awaited are, one after the other, those of the hooks of the stored
  arguments, the argument constructed last first (one task for a \<open>co_cleanup\<close>,
  \<open>n\<close> for a \<open>privateHack_co_cleanup\<close> that returns \<open>n\<close> tasks, none for an
  argument without hook); and every await of a cleanup task comes before every
  destruction of a stored argument.
\<close>

theorem cleanup_in_reverse_construction_order:
  assumes bind: "bind_captures_to_closure kIsDebug cmas Cfg traits heap mk (safeties, b_tup)
                   = (cl, evs)"
  shows "(static_asserts Cfg traits b_tup = None \<longrightarrow>
          2 + sum_list (map (\<lambda>a. cleanup_count (cleanup_hook a)) (outer_stored_args b_tup)) < heap
            \<longrightarrow> (\<exists>t. the_task cl = Some t))
       \<and> (\<forall>t c tr. the_task cl = Some t \<longrightarrow> co_awaitTry NDEBUG kIsDebug t = (c, tr) \<longrightarrow>
            constructed (evs @ tr) = map arg_id (outer_stored_args b_tup)
            \<and> map (\<lambda>(a, k, seen). (a, k)) (awaited_cleanups (evs @ tr))
                = concat (map (\<lambda>a. map (Pair (arg_id a)) [0..<cleanup_count (cleanup_hook a)])
                            (rev (outer_stored_args b_tup)))
            \<and> (\<forall>i j. i < length (evs @ tr) \<longrightarrow> j < length (evs @ tr) \<longrightarrow>
                   is_Destroy ((evs @ tr) ! i) \<longrightarrow> is_AwaitCleanup ((evs @ tr) ! j) \<longrightarrow> j < i))"
proof (intro conjI allI impI)
  assume "static_asserts Cfg traits b_tup = None"
    and "2 + sum_list (map (\<lambda>a. cleanup_count (cleanup_hook a)) (outer_stored_args b_tup)) < heap"
  with bind show "\<exists>t. the_task cl = Some t"
    by (rule bind_enough_heap_hooks)
next
  fix t c tr
  assume built: "the_task cl = Some t" and await: "co_awaitTry NDEBUG kIsDebug t = (c, tr)"
  let ?hooks = "concat (map (\<lambda>a. map (Pair (arg_id a)) [0..<cleanup_count (cleanup_hook a)])
                            (rev (outer_stored_args b_tup)))"
  have "constructed (evs @ tr) = map arg_id (outer_stored_args b_tup)
      \<and> map (\<lambda>(a, k, seen). (a, k)) (awaited_cleanups (evs @ tr)) = ?hooks
      \<and> (\<forall>i j. i < length (evs @ tr) \<longrightarrow> j < length (evs @ tr) \<longrightarrow>
              is_Destroy ((evs @ tr) ! i) \<longrightarrow> is_AwaitCleanup ((evs @ tr) ! j) \<longrightarrow> j < i)"
  proof (cases "outer_stored_args b_tup = []")
    case True
    from bind_built(1) [OF bind built] True obtain args where
      "coro t = inner_coro (mk args)" and evs: "evs = [MakeInnerCoro]"
      by auto
    with await have tr: "tr = [AwaitInner]"
      by (simp add: await_inner)
    have "\<And>i. i < length (evs @ tr) \<Longrightarrow> \<not> is_Destroy ((evs @ tr) ! i)"
      using evs tr by (simp add: nth_Cons split: nat.splits)
    with True evs tr show ?thesis
      by simp
  next
    case False
    let ?st = "storage_of kIsDebug b_tup"
    let ?cl = "reversed_noexcept_cleanups ?st"
    from bind_built(1) [OF bind built] False obtain args where
      coro: "coro t = outer_coro True (result_after_cleanup traits) (mk args) ?st ?cl"
      and evs: "evs = map (\<lambda>a. Construct (arg_id a)) (outer_stored_args b_tup) @ [MakeInnerCoro]
                     @ map (\<lambda>t. MakeCleanupTask (owner t) (part t)) ?cl @ [MakeOuterCoro]"
      by auto
    from await_outer [OF coro _ await] obtain pre s where
      tr: "tr = (pre @ map (await_cleanup s) ?cl @ (case c of Inl _ \<Rightarrow> [] | Inr _ \<Rightarrow> [Finish]))
            @ (case c of Inl _ \<Rightarrow> []
               | Inr _ \<Rightarrow> map (\<lambda>a. Destroy (arg_id a)) (rev (storage_tuple ?st)))"
      and pre: "awaited_cleanups pre = []" "constructed pre = []" "destroyed pre = []"
      by blast
    let ?run = "pre @ map (await_cleanup s) ?cl @ (case c of Inl _ \<Rightarrow> [] | Inr _ \<Rightarrow> [Finish])"
    let ?post = "case c of Inl _ \<Rightarrow> []
                 | Inr _ \<Rightarrow> map (\<lambda>a. Destroy (arg_id a)) (rev (storage_tuple ?st))"
    note traces = constructed_append awaited_cleanups_append destroyed_append
      trace_of_constructs trace_of_makes trace_of_awaits Finish_trace Destroy_trace
      awaited_cleanups_await
    have 1: "constructed (evs @ tr) = map arg_id (outer_stored_args b_tup)"
      by (simp add: tr evs pre traces)
    have "awaited_cleanups (evs @ tr) = map (cleanup_seeing (inner_err s)) ?cl"
      by (simp add: tr evs pre traces)
    then have "map (\<lambda>(a, k, seen). (a, k)) (awaited_cleanups (evs @ tr))
        = map (\<lambda>t. (owner t, part t)) ?cl"
      by (simp only: awaited_tasks)
    then have 2: "map (\<lambda>(a, k, seen). (a, k)) (awaited_cleanups (evs @ tr)) = ?hooks"
      by (simp only: reversed_cleanups_tasks) (simp add: storage_of_def)
    have split: "evs @ tr = (evs @ ?run) @ ?post"
      unfolding tr by simp
    have "destroyed (evs @ ?run) = []"
      by (simp add: evs pre traces)
    moreover have "awaited_cleanups ?post = []"
      by (simp add: traces)
    ultimately
    have 3: "\<forall>i j. i < length (evs @ tr) \<longrightarrow> j < length (evs @ tr) \<longrightarrow>
                is_Destroy ((evs @ tr) ! i) \<longrightarrow> is_AwaitCleanup ((evs @ tr) ! j) \<longrightarrow> j < i"
      unfolding split using cleanups_before_destructors by blast
    from 1 2 3 show ?thesis by blast
  qed
  then show "constructed (evs @ tr) = map arg_id (outer_stored_args b_tup)"
    and "map (\<lambda>(a, k, seen). (a, k)) (awaited_cleanups (evs @ tr)) = ?hooks"
    and "\<And>i j. i < length (evs @ tr) \<Longrightarrow> j < length (evs @ tr) \<Longrightarrow>
            is_Destroy ((evs @ tr) ! i) \<Longrightarrow> is_AwaitCleanup ((evs @ tr) ! j) \<Longrightarrow> j < i"
    by blast+
qed


lemma allocate_eq: "allocate heap = (if heap = 0 then None else Some (heap - 1))"
  by (cases heap) simp_all

lemmas bind_simps = allocate_eq
  bind_captures_to_closure_def static_asserts_def make_storage_def bind_inner_coro_args_def
  StorageIs_def get_from_storage_ptr_def async_closure_make_outer_coro_def
  reversed_noexcept_cleanups_def async_closure_make_cleanup_tuple_def destroy_storage_def
  async_closure_default_inner_err_def least_safe_alias_def toNowTask_def
  less_eq_safe_alias_def min_def max_def upt_rec Let_def
  plain_closure_def now_closure_def ClosureTask_def inner_returning_def
  OrderTracker_def HasCleanup_def ThrowingScope_def

text \<open>
  The test \<open>ctorCleanupDtorOrdering\<close> (AsyncClosureTest.cpp, lines 812-835): four
  \<open>OrderTracker\<close>s, constructed 1, 2, 3, 4, cleaned up 4, 3, 2, 1 and destroyed
  4, 3, 2, 1.
\<close>

lemma bind_four_trackers:
  "bind_captures_to_closure True co_cleanup_safe_ref plain_closure ClosureTask 10
     (inner_returning (TryValue 0))
     ([co_cleanup_safe_ref, co_cleanup_safe_ref, co_cleanup_safe_ref, co_cleanup_safe_ref],
      map async_closure_outer_stored_arg
        [OrderTracker 1, OrderTracker 2, OrderTracker 3, OrderTracker 4])
   = (wrap_coro
        \<lparr>OuterSafety = co_cleanup_safe_ref, InnerSafety = unsafe_closure_internal,
         outer_mover =
           \<lparr>task_type = SafeTask co_cleanup_safe_ref,
            coro = outer_coro True None (TryValue 0)
                     (test_storage [OrderTracker 1, OrderTracker 2, OrderTracker 3, OrderTracker 4])
                     (reversed_noexcept_cleanups
                        (test_storage [OrderTracker 1, OrderTracker 2, OrderTracker 3,
                                       OrderTracker 4]))\<rparr>\<rparr>,
      [Construct 1, Construct 2, Construct 3, Construct 4, MakeInnerCoro,
       MakeCleanupTask 4 0, MakeCleanupTask 3 0, MakeCleanupTask 2 0, MakeCleanupTask 1 0,
       MakeOuterCoro])"
  by (simp add: bind_simps test_storage_def)

lemma await_four_trackers:
  "co_awaitTry False True
     \<lparr>task_type = SafeTask co_cleanup_safe_ref,
      coro = outer_coro True None (TryValue (0::nat))
               (test_storage [OrderTracker 1, OrderTracker 2, OrderTracker 3, OrderTracker 4])
               (reversed_noexcept_cleanups
                  (test_storage [OrderTracker 1, OrderTracker 2, OrderTracker 3,
                                 OrderTracker 4]))\<rparr>
   = (Inr (TryValue 0),
      [AwaitInner, AwaitCleanup 4 0 None, AwaitCleanup 3 0 None, AwaitCleanup 2 0 None,
       AwaitCleanup 1 0 None, Finish, Destroy 4, Destroy 3, Destroy 2, Destroy 1])"
  by (simp add: co_awaitTry_def run_simps destroy_storage_def)

theorem cleanup_in_reverse_construction_order_witness:
  "static_asserts plain_closure ClosureTask
     (map async_closure_outer_stored_arg
        [OrderTracker 1, OrderTracker 2, OrderTracker 3, OrderTracker 4]) = None
   \<and> 2 + sum_list (map (\<lambda>a. cleanup_count (cleanup_hook a))
                    [OrderTracker 1, OrderTracker 2, OrderTracker 3, OrderTracker 4]) < (10 :: nat)
   \<and> constructed ([Construct 1, Construct 2, Construct 3, Construct 4, MakeInnerCoro,
       MakeCleanupTask 4 0, MakeCleanupTask 3 0, MakeCleanupTask 2 0, MakeCleanupTask 1 0,
       MakeOuterCoro]
     @ [AwaitInner, AwaitCleanup 4 0 None, AwaitCleanup 3 0 None, AwaitCleanup 2 0 None,
        AwaitCleanup 1 0 None, Finish, Destroy 4, Destroy 3, Destroy 2, Destroy 1 :: nat event])
     = [1, 2, 3, 4]
   \<and> map (\<lambda>(a, k, seen). (a, k))
       (awaited_cleanups ([Construct 1, Construct 2, Construct 3, Construct 4, MakeInnerCoro,
          MakeCleanupTask 4 0, MakeCleanupTask 3 0, MakeCleanupTask 2 0, MakeCleanupTask 1 0,
          MakeOuterCoro]
        @ [AwaitInner, AwaitCleanup 4 0 None, AwaitCleanup 3 0 None, AwaitCleanup 2 0 None,
           AwaitCleanup 1 0 None, Finish, Destroy 4, Destroy 3, Destroy 2, Destroy 1 :: nat event]))
     = [(4, 0), (3, 0), (2, 0), (1, 0)]
   \<and> destroyed ([Construct 1, Construct 2, Construct 3, Construct 4, MakeInnerCoro,
       MakeCleanupTask 4 0, MakeCleanupTask 3 0, MakeCleanupTask 2 0, MakeCleanupTask 1 0,
       MakeOuterCoro]
     @ [AwaitInner, AwaitCleanup 4 0 None, AwaitCleanup 3 0 None, AwaitCleanup 2 0 None,
        AwaitCleanup 1 0 None, Finish, Destroy 4, Destroy 3, Destroy 2, Destroy 1 :: nat event])
     = [4, 3, 2, 1]"
proof -
  have built: "the_task (wrap_coro
        \<lparr>OuterSafety = co_cleanup_safe_ref, InnerSafety = unsafe_closure_internal,
         outer_mover =
           \<lparr>task_type = SafeTask co_cleanup_safe_ref,
            coro = outer_coro True None (TryValue (0::nat))
                     (test_storage [OrderTracker 1, OrderTracker 2, OrderTracker 3, OrderTracker 4])
                     (reversed_noexcept_cleanups
                        (test_storage [OrderTracker 1, OrderTracker 2, OrderTracker 3,
                                       OrderTracker 4]))\<rparr>\<rparr>)
      = Some \<lparr>task_type = SafeTask co_cleanup_safe_ref,
            coro = outer_coro True None (TryValue 0)
                     (test_storage [OrderTracker 1, OrderTracker 2, OrderTracker 3, OrderTracker 4])
                     (reversed_noexcept_cleanups
                        (test_storage [OrderTracker 1, OrderTracker 2, OrderTracker 3,
                                       OrderTracker 4]))\<rparr>"
    by simp
  have sa: "static_asserts plain_closure ClosureTask
     (map async_closure_outer_stored_arg
        [OrderTracker 1, OrderTracker 2, OrderTracker 3, OrderTracker 4]) = None"
    by (simp add: static_asserts_def plain_closure_def ClosureTask_def)
  have heap: "2 + sum_list (map (\<lambda>a. cleanup_count (cleanup_hook a))
                    [OrderTracker 1, OrderTracker 2, OrderTracker 3, OrderTracker 4]) < (10 :: nat)"
    by (simp add: OrderTracker_def)
  from cleanup_in_reverse_construction_order [OF bind_four_trackers, where NDEBUG = False]
    built await_four_trackers sa heap
  show ?thesis
    by (simp add: OrderTracker_def)
qed


section \<open>Allocation failure\<close>

text \<open>
  C7, as the code has it. Whatever the heap: if \<open>bind_captures_to_closure\<close> builds
  the closure, then every cleanup task of every stored argument has been made while
  building, before the inner computation is awaited; awaiting the closure makes no
  further task, and awaits every task made, once and in the order made, however the
  inner computation ends. If building fails (an allocation throws \<open>bad_alloc\<close>), the
  inner computation has not been awaited and no cleanup task is awaited: the arguments
  constructed until then are destroyed, in reverse, without cleanup.
\<close>

theorem cleanup_tasks_made_before_inner_awaited:
  assumes bind: "bind_captures_to_closure kIsDebug cmas Cfg traits heap mk (safeties, b_tup)
                   = (cl, evs)"
  shows "(\<forall>t c tr. the_task cl = Some t \<longrightarrow> co_awaitTry NDEBUG kIsDebug t = (c, tr) \<longrightarrow>
            made_cleanups evs = map (\<lambda>t. (owner t, part t))
                                  (reversed_noexcept_cleanups (storage_of kIsDebug b_tup))
            \<and> AwaitInner \<notin> set evs
            \<and> made_cleanups tr = []
            \<and> map (\<lambda>(a, k, seen). (a, k)) (awaited_cleanups tr) = made_cleanups evs)
       \<and> (the_task cl = None \<longrightarrow>
            AwaitInner \<notin> set evs \<and> awaited_cleanups evs = []
            \<and> destroyed evs = rev (constructed evs))"
proof (intro conjI allI impI)
  assume failed: "the_task cl = None"
  from bind_not_built(1) [OF bind failed] show "AwaitInner \<notin> set evs" .
  from bind_not_built(2) [OF bind failed] show "awaited_cleanups evs = []" .
  from bind_not_built(4) [OF bind failed] show "destroyed evs = rev (constructed evs)" .
next
  fix t c tr
  assume built: "the_task cl = Some t" and await: "co_awaitTry NDEBUG kIsDebug t = (c, tr)"
  let ?st = "storage_of kIsDebug b_tup"
  let ?cl = "reversed_noexcept_cleanups ?st"
  note traces = made_cleanups_append awaited_cleanups_append
    trace_of_constructs trace_of_makes trace_of_awaits Finish_trace Destroy_trace
    awaited_cleanups_await
  have "made_cleanups evs = map (\<lambda>t. (owner t, part t)) ?cl \<and> AwaitInner \<notin> set evs
      \<and> made_cleanups tr = []
      \<and> map (\<lambda>(a, k, seen). (a, k)) (awaited_cleanups tr) = made_cleanups evs"
  proof (cases "outer_stored_args b_tup = []")
    case True
    from bind_built(1) [OF bind built] True obtain args where
      "coro t = inner_coro (mk args)" and evs: "evs = [MakeInnerCoro]"
      by auto
    with await have tr: "tr = [AwaitInner]"
      by (simp add: await_inner)
    from True have "?cl = []"
      by (simp add: reversed_noexcept_cleanups_def storage_of_def)
    with evs tr show ?thesis
      by simp
  next
    case False
    from bind_built(1) [OF bind built] False obtain args where
      coro: "coro t = outer_coro True (result_after_cleanup traits) (mk args) ?st ?cl"
      and evs: "evs = map (\<lambda>a. Construct (arg_id a)) (outer_stored_args b_tup) @ [MakeInnerCoro]
                     @ map (\<lambda>t. MakeCleanupTask (owner t) (part t)) ?cl @ [MakeOuterCoro]"
      by auto
    from await_outer [OF coro _ await] obtain pre s where
      tr: "tr = (pre @ map (await_cleanup s) ?cl @ (case c of Inl _ \<Rightarrow> [] | Inr _ \<Rightarrow> [Finish]))
            @ (case c of Inl _ \<Rightarrow> []
               | Inr _ \<Rightarrow> map (\<lambda>a. Destroy (arg_id a)) (rev (storage_tuple ?st)))"
      and pre: "awaited_cleanups pre = []" "made_cleanups pre = []"
      by blast
    have 1: "made_cleanups evs = map (\<lambda>t. (owner t, part t)) ?cl"
      by (simp add: evs traces)
    have 2: "AwaitInner \<notin> set evs"
      by (auto simp: evs)
    have 3: "made_cleanups tr = []"
      by (simp add: tr pre traces)
    have "awaited_cleanups tr = map (cleanup_seeing (inner_err s)) ?cl"
      by (simp add: tr pre traces)
    then have 4: "map (\<lambda>(a, k, seen). (a, k)) (awaited_cleanups tr) = made_cleanups evs"
      by (simp only: awaited_tasks 1)
    from 1 2 3 4 show ?thesis by blast
  qed
  then show "made_cleanups evs = map (\<lambda>t. (owner t, part t)) ?cl"
    and "AwaitInner \<notin> set evs" and "made_cleanups tr = []"
    and "map (\<lambda>(a, k, seen). (a, k)) (awaited_cleanups tr) = made_cleanups evs"
    by blast+
qed

text \<open>
  Two arguments with cleanup and a heap of three allocations: the storage, the frame of
  the inner coroutine and the cleanup task of the second argument are allocated, and the
  cleanup task of the first is not. Both arguments have been constructed; both are
  destroyed, and no cleanup has run.
\<close>

lemma bind_out_of_memory:
  "bind_captures_to_closure True co_cleanup_safe_ref plain_closure ClosureTask 3
     (inner_returning (TryValue 0))
     ([co_cleanup_safe_ref, co_cleanup_safe_ref],
      [async_closure_outer_stored_arg (HasCleanup 1),
       async_closure_outer_stored_arg (HasCleanup 2)])
   = (thrown bad_alloc,
      [Construct 1, Construct 2, MakeInnerCoro, MakeCleanupTask 2 0, Destroy 2, Destroy 1])"
  by (simp add: bind_simps)

theorem cleanup_tasks_made_before_inner_awaited_witness:
  "the_task (thrown bad_alloc :: (nat, nat) closure) = None
   \<and> AwaitInner \<notin> set [Construct 1, Construct 2, MakeInnerCoro, MakeCleanupTask 2 0,
                          Destroy 2, Destroy 1 :: nat event]
   \<and> awaited_cleanups [Construct 1, Construct 2, MakeInnerCoro, MakeCleanupTask 2 0,
                         Destroy 2, Destroy 1 :: nat event] = []
   \<and> destroyed [Construct 1, Construct 2, MakeInnerCoro, MakeCleanupTask 2 0,
                  Destroy 2, Destroy 1 :: nat event]
       = rev (constructed [Construct 1, Construct 2, MakeInnerCoro, MakeCleanupTask 2 0,
                           Destroy 2, Destroy 1 :: nat event])"
proof -
  have failed: "the_task (thrown bad_alloc :: (nat, nat) closure) = None"
    by simp
  from cleanup_tasks_made_before_inner_awaited [OF bind_out_of_memory] failed
  show ?thesis
    by simp
qed

theorem constructed_argument_left_without_cleanup_counterexample:
  "bind_captures_to_closure True co_cleanup_safe_ref plain_closure ClosureTask 3
     (inner_returning (TryValue 0))
     ([co_cleanup_safe_ref, co_cleanup_safe_ref],
      [async_closure_outer_stored_arg (HasCleanup 1),
       async_closure_outer_stored_arg (HasCleanup 2)])
   = (thrown bad_alloc,
      [Construct 1, Construct 2, MakeInnerCoro, MakeCleanupTask 2 0, Destroy 2, Destroy 1])
   \<and> constructed [Construct 1, Construct 2, MakeInnerCoro, MakeCleanupTask 2 0,
                    Destroy 2, Destroy 1 :: nat event] = [1, 2]
   \<and> made_cleanups [Construct 1, Construct 2, MakeInnerCoro, MakeCleanupTask 2 0,
                      Destroy 2, Destroy 1 :: nat event] = [(2, 0)]
   \<and> awaited_cleanups [Construct 1, Construct 2, MakeInnerCoro, MakeCleanupTask 2 0,
                         Destroy 2, Destroy 1 :: nat event] = []
   \<and> destroyed [Construct 1, Construct 2, MakeInnerCoro, MakeCleanupTask 2 0,
                  Destroy 2, Destroy 1 :: nat event] = [2, 1]"
  by (simp add: bind_simps)


section \<open>The closure without an outer coroutine\<close>






text \<open>
  The tests \<open>returnsVoidNoOuter\<close> and \<open>returnsVoid\<close> in the manner of
  AsyncClosureTest.cpp, lines 175-192: a closure over a plain argument, and one that
  stores an argument on the outer coroutine.
\<close>

lemma bind_without_storage:
  "bind_captures_to_closure True co_cleanup_safe_ref plain_closure ClosureTask 10
     (inner_returning (TryValue 7))
     ([maybe_value], [async_closure_regular_arg 5 :: nat binding])
   = (wrap_coro
        \<lparr>OuterSafety = maybe_value, InnerSafety = unsafe_closure_internal,
         outer_mover = \<lparr>task_type = SafeTask maybe_value, coro = inner_coro (TryValue 7)\<rparr>\<rparr>,
      [MakeInnerCoro])"
  by (simp add: bind_simps)





section \<open>The safety gate\<close>

lemma release_iff:
  "(\<exists>t. release_outer_coro cmas w = Inr t)
     \<longleftrightarrow> (cmas \<le> OuterSafety w \<and> unsafe_closure_internal \<le> InnerSafety w)"
  by (auto simp: release_outer_coro_def has_safe_args_def is_inner_coro_safe_def)

lemma release_task:
  "release_outer_coro cmas w = Inr t \<Longrightarrow>
   t = outer_mover w \<and> cmas \<le> OuterSafety w \<and> unsafe_closure_internal \<le> InnerSafety w"
  by (auto simp: release_outer_coro_def has_safe_args_def is_inner_coro_safe_def
        split: if_splits)

lemma built_not_awaited:
  assumes "bind_captures_to_closure D cmas Cfg traits heap mk (safeties, b_tup) = (cl, evs)"
  shows "AwaitInner \<notin> set evs"
proof (cases "the_task cl")
  case None
  from bind_not_built(1) [OF assms None] show ?thesis .
next
  case (Some t)
  from bind_built(1) [OF assms Some] show ?thesis
    by (auto split: if_splits)
qed

text \<open>
  C2. For what \<open>bind_captures_to_closure\<close> returns. If it is the wrapper
  \<open>async_closure_wrap_coro\<close>, then the closure was not forced to a \<open>NowTask\<close>,
  the wrapper's \<open>OuterSafety\<close> is the join of the arguments' safety levels and its
  \<open>InnerSafety\<close> is the safety of the inner coroutine's type; \<open>release_outer_coro\<close>
  gives a task exactly when \<open>OuterSafety\<close> is at least
  \<open>closure_min_arg_safety\<close> and \<open>InnerSafety\<close> is at least
  \<open>unsafe_closure_internal\<close>, which is what \<open>is_safe\<close> says; the task released is
  a \<open>SafeTask\<close> tagged with \<open>OuterSafety\<close>; otherwise the release is a failed
  \<open>static_assert\<close>; and in building, the inner computation has not been awaited.
  With \<open>force_shared_cleanup\<close>, no wrapper and no safety check stands in the way: what
  is built is a \<open>NowTask\<close>, and it is built whenever the \<open>static_assert\<close>s of
  \<open>bind_captures_to_closure\<close> (which do not read the safety levels) hold and the
  heap suffices, whatever the safety levels are.
\<close>

theorem shareable_task_released_iff_safe:
  assumes bind: "bind_captures_to_closure kIsDebug cmas Cfg traits heap mk (safeties, b_tup)
                   = (cl, evs)"
  shows "(\<forall>w. cl = wrap_coro w \<longrightarrow>
            \<not> force_shared_cleanup Cfg
            \<and> OuterSafety w = least_safe_alias safeties
            \<and> InnerSafety w = arg_safety traits
            \<and> ((\<exists>t. release_outer_coro cmas w = Inr t)
                 \<longleftrightarrow> (cmas \<le> least_safe_alias safeties
                      \<and> unsafe_closure_internal \<le> arg_safety traits))
            \<and> (is_safe cmas w \<longleftrightarrow> (\<exists>t. release_outer_coro cmas w = Inr t))
            \<and> (\<not> is_safe cmas w \<longrightarrow> (\<exists>failure. release_outer_coro cmas w = Inl failure))
            \<and> (\<forall>t. release_outer_coro cmas w = Inr t \<longrightarrow>
                   task_type t = SafeTask (least_safe_alias safeties))
            \<and> AwaitInner \<notin> set evs)
       \<and> (force_shared_cleanup Cfg \<longrightarrow>
            (\<forall>t. the_task cl = Some t \<longrightarrow> cl = now_task t \<and> task_type t = NowTask)
            \<and> (static_asserts Cfg traits b_tup = None \<longrightarrow>
                 2 + length (reversed_noexcept_cleanups (storage_of kIsDebug b_tup)) < heap \<longrightarrow>
                 (\<exists>t. cl = now_task t \<and> task_type t = NowTask)))"
proof (intro conjI allI impI)
  fix w
  assume w: "cl = wrap_coro w"
  then have built: "the_task cl = Some (outer_mover w)"
    by simp
  note facts = bind_built [OF bind built]
  from facts(2) w show nf: "\<not> force_shared_cleanup Cfg"
    by (auto split: if_splits)
  with facts(2) w have weq: "w = \<lparr>OuterSafety = least_safe_alias safeties,
      InnerSafety = arg_safety traits, outer_mover = outer_mover w\<rparr>"
    by simp
  from arg_cong [OF weq, of OuterSafety] show os: "OuterSafety w = least_safe_alias safeties"
    by simp
  from arg_cong [OF weq, of InnerSafety] show "is": "InnerSafety w = arg_safety traits"
    by simp
  from os "is" show iff: "(\<exists>t. release_outer_coro cmas w = Inr t)
       \<longleftrightarrow> (cmas \<le> least_safe_alias safeties \<and> unsafe_closure_internal \<le> arg_safety traits)"
    by (simp add: release_iff)
  show "is_safe cmas w \<longleftrightarrow> (\<exists>t. release_outer_coro cmas w = Inr t)"
    by (simp add: release_iff is_safe_def has_safe_args_def is_inner_coro_safe_def)
  show "\<exists>failure. release_outer_coro cmas w = Inl failure" if "\<not> is_safe cmas w"
    using that
    by (auto simp: release_outer_coro_def is_safe_def)
  from built_not_awaited [OF bind] show "AwaitInner \<notin> set evs" .
  fix t
  assume "release_outer_coro cmas w = Inr t"
  from release_task [OF this] os "is"
  have t: "t = outer_mover w" and safe: "cmas \<le> least_safe_alias safeties"
    "unsafe_closure_internal \<le> arg_safety traits"
    by simp_all
  from facts(3) nf safe t show "task_type t = SafeTask (least_safe_alias safeties)"
    by (simp add: max_def)
next
  fix t
  assume fsc: "force_shared_cleanup Cfg" and built: "the_task cl = Some t"
  from bind_built(2,3) [OF bind built] fsc show "cl = now_task t" and "task_type t = NowTask"
    by simp_all
next
  assume fsc: "force_shared_cleanup Cfg" and sa: "static_asserts Cfg traits b_tup = None"
    and heap: "2 + length (reversed_noexcept_cleanups (storage_of kIsDebug b_tup)) < heap"
  from bind_enough_heap [OF sa heap, of cmas mk safeties] bind
  obtain t where built: "the_task cl = Some t"
    by auto
  from bind_built(2,3) [OF bind built] fsc show "\<exists>t. cl = now_task t \<and> task_type t = NowTask"
    by auto
qed

text \<open>
  The test \<open>checkSafety\<close> (AsyncClosureTest.cpp, lines 81-134): a \<open>ClosureTask\<close>
  over a \<open>maybe_value\<close> argument is safe and is released with that level.
\<close>

lemma bind_now_closure:
  "bind_captures_to_closure True co_cleanup_safe_ref now_closure PlainTask 10
     (inner_returning (TryValue 1337))
     ([maybe_value, unsafe], [async_closure_inner_stored_arg 1000, async_closure_regular_arg 300])
   = (now_task \<lparr>task_type = NowTask, coro = inner_coro (TryValue 1337)\<rparr>,
      [MakeInnerCoro :: nat event])"
  by (simp add: bind_simps PlainTask_def)

theorem shareable_task_released_iff_safe_witness:
  "\<not> force_shared_cleanup plain_closure
   \<and> is_safe co_cleanup_safe_ref
        \<lparr>OuterSafety = maybe_value, InnerSafety = unsafe_closure_internal,
         outer_mover = \<lparr>task_type = SafeTask maybe_value,
                        coro = inner_coro (TryValue 7 :: (nat, nat) Try)\<rparr>\<rparr>
   \<and> release_outer_coro co_cleanup_safe_ref
        \<lparr>OuterSafety = maybe_value, InnerSafety = unsafe_closure_internal,
         outer_mover = \<lparr>task_type = SafeTask maybe_value,
                        coro = inner_coro (TryValue 7 :: (nat, nat) Try)\<rparr>\<rparr>
       = Inr \<lparr>task_type = SafeTask maybe_value, coro = inner_coro (TryValue 7)\<rparr>
   \<and> least_safe_alias [maybe_value] = maybe_value
   \<and> force_shared_cleanup now_closure
   \<and> the_task (now_task \<lparr>task_type = NowTask,
                           coro = inner_coro (TryValue 1337 :: (nat, nat) Try)\<rparr>)
       = Some \<lparr>task_type = NowTask, coro = inner_coro (TryValue 1337)\<rparr>
   \<and> least_safe_alias [maybe_value, unsafe] = unsafe"
proof -
  have released: "release_outer_coro co_cleanup_safe_ref
        \<lparr>OuterSafety = maybe_value, InnerSafety = unsafe_closure_internal,
         outer_mover = \<lparr>task_type = SafeTask maybe_value,
                        coro = inner_coro (TryValue 7 :: (nat, nat) Try)\<rparr>\<rparr>
       = Inr \<lparr>task_type = SafeTask maybe_value, coro = inner_coro (TryValue 7)\<rparr>"
    by (simp add: release_outer_coro_def has_safe_args_def is_inner_coro_safe_def
          less_eq_safe_alias_def)
  from shareable_task_released_iff_safe [OF bind_without_storage]
  have "\<not> force_shared_cleanup plain_closure
      \<and> is_safe co_cleanup_safe_ref
        \<lparr>OuterSafety = maybe_value, InnerSafety = unsafe_closure_internal,
         outer_mover = \<lparr>task_type = SafeTask maybe_value,
                        coro = inner_coro (TryValue 7 :: (nat, nat) Try)\<rparr>\<rparr>
      \<and> least_safe_alias [maybe_value] = maybe_value"
    using released by auto
  moreover from shareable_task_released_iff_safe [OF bind_now_closure]
  have "force_shared_cleanup now_closure"
    by (simp add: now_closure_def)
  moreover have "least_safe_alias [maybe_value, unsafe] = unsafe"
    by (simp add: least_safe_alias_def min_def less_eq_safe_alias_def)
  ultimately show ?thesis
    using released by simp
qed


end
